theory Spec2Isabelle
  imports Main "HOL-Library.AList"
begin

section \<open>The MatrixRTC session manager (src/matrixrtc/MatrixRTCSessionManager.ts)\<close>

text \<open>
  The manager keeps one session object per room in \<^verbatim>\<open>roomSessions\<close>, a JavaScript
  \<^verbatim>\<open>Map\<close> from room id to \<^verbatim>\<open>MatrixRTCSession\<close>, and reacts to three
  event streams of the client. The model threads one record through every method: the
  fields of the class (\<^verbatim>\<open>client\<close>, \<^verbatim>\<open>roomSessions\<close>) and, as lists that only grow,
  everything a method does to the outside: notifications emitted, log lines, timers set,
  and the operations invoked on session objects.
\<close>

subsection \<open>The collaborators: rooms, events, the client, session objects\<close>

text \<open>
  A room, as far as the manager reads it: \<^verbatim>\<open>room.roomId\<close>. Everything else of a room
  (its current state events) is only handed on to the session class; it is the type
  parameter.
\<close>

record 'rs room =
  roomId :: string
  currentState :: 'rs

text \<open>
  A \<^verbatim>\<open>MatrixEvent\<close>, through the accessors the manager calls:
  \<^verbatim>\<open>getId()\<close>, \<^verbatim>\<open>getRoomId()\<close> (which may be undefined), \<^verbatim>\<open>getType()\<close>,
  \<^verbatim>\<open>isDecryptionFailure()\<close> and \<^verbatim>\<open>decryptionFailureReason\<close>.
\<close>

record matrix_event =
  getId :: string
  getRoomId :: "string option"
  getType :: string
  isDecryptionFailure :: bool
  decryptionFailureReason :: string

text \<open>
  The two event types the manager filters on. They are declared in
  \<^verbatim>\<open>@types/event.ts\<close>, which is not among the sources at hand; no property below depends on
  their spelling.
\<close>

definition CallEncryptionKeysPrefix :: string where
  "CallEncryptionKeysPrefix = ''io.element.call.encryption_keys''"

definition GroupCallMemberPrefix :: string where
  "GroupCallMemberPrefix = ''org.matrix.msc3401.call.member''"

text \<open>
  The three streams the manager subscribes to, and its three handlers.
\<close>

datatype emitter_event = ClientEvent_Room | RoomEvent_Timeline | RoomStateEvent_Events

datatype handler = Handler_onRoom | Handler_onTimeline | Handler_onRoomState

text \<open>
  The \<^verbatim>\<open>MatrixClient\<close>, as the record of what the manager asks of it:
  \<^verbatim>\<open>getRooms()\<close> (nullable: the source guards it with \<^verbatim>\<open>?? []\<close>),
  \<^verbatim>\<open>getRoom(id)\<close>, \<^verbatim>\<open>decryptEventIfNeeded(event)\<close> (which mutates the event; here it
  returns the event as it is once the awaited promise has resolved) and the listeners
  registered with \<^verbatim>\<open>on\<close>/\<open>off\<close>. The client class is not among the sources at hand,
  so its answers are arbitrary functions.
\<close>

record 'rs client =
  getRooms :: "'rs room list option"
  getRoom :: "string option \<Rightarrow> 'rs room option"
  decryptEventIfNeeded :: "matrix_event \<Rightarrow> matrix_event"
  listeners :: "(emitter_event \<times> handler) list"

text \<open>
  Modelled from the spec: \<^verbatim>\<open>client.on\<close> and \<^verbatim>\<open>client.off\<close> of the event emitter the
  client extends (``Subscribe/unsubscribe to three event kinds''). \<^verbatim>\<open>on\<close> appends a
  listener; \<^verbatim>\<open>off\<close> removes one registration of it, the one added last.
\<close>

definition client_on :: "emitter_event \<Rightarrow> handler \<Rightarrow> 'rs client \<Rightarrow> 'rs client" where
  "client_on ev h c = c\<lparr>listeners := listeners c @ [(ev, h)]\<rparr>"

definition client_off :: "emitter_event \<Rightarrow> handler \<Rightarrow> 'rs client \<Rightarrow> 'rs client" where
  "client_off ev h c = c\<lparr>listeners := rev (remove1 (ev, h) (rev (listeners c)))\<rparr>"

text \<open>
  The \<^verbatim>\<open>MatrixRTCSession\<close> class is not among the sources at hand either. The manager
  uses five things of it, taken here as parameters over an arbitrary type \<open>'s\<close> of session
  states: the factory \<^verbatim>\<open>roomSessionForRoom(client, room)\<close>, the field \<^verbatim>\<open>memberships\<close>,
  and the operations \<^verbatim>\<open>onRTCSessionMemberUpdate()\<close> (which recomputes the memberships
  from what the client knows at that moment), \<^verbatim>\<open>onCallEncryption(event)\<close> and
  \<^verbatim>\<open>stop()\<close>.
\<close>

record ('rs, 's) session_api =
  roomSessionForRoom :: "'rs client \<Rightarrow> 'rs room \<Rightarrow> 's"
  memberships :: "'s \<Rightarrow> string list"
  onRTCSessionMemberUpdate :: "'rs client \<Rightarrow> 's \<Rightarrow> 's"
  onCallEncryption :: "matrix_event \<Rightarrow> 's \<Rightarrow> 's"
  session_stop :: "'s \<Rightarrow> 's"

text \<open>
  A session object is its identity (the allocation number of the \<^verbatim>\<open>new\<close> that made it)
  and its current state. Two references are the same object iff their \<open>session_ref\<close> agree.
\<close>

record 's session_obj =
  session_ref :: nat
  session_state :: 's

subsection \<open>The manager's state and its effects\<close>

datatype MatrixRTCSessionManagerEvents = SessionStarted | SessionEnded

datatype log_level = Log_warn | Log_info | Log_error

datatype session_call =
    Call_onRTCSessionMemberUpdate nat
  | Call_onCallEncryption nat matrix_event
  | Call_stop nat

text \<open>
  \<open>roomSessions\<close> is the \<^verbatim>\<open>Map\<close>, as an association list in insertion order (the order
  \<^verbatim>\<open>values()\<close> iterates in). \<open>next_ref\<close> numbers the session objects created so far.
  \<open>emitted\<close> lists the calls of \<^verbatim>\<open>this.emit\<close> (event, room id, the session's identity),
  \<open>logged\<close> the logger calls, \<open>session_calls\<close> the operations invoked on session objects,
  and \<open>timers\<close> the pending \<^verbatim>\<open>setTimeout\<close> callbacks: each is
  \<^verbatim>\<open>() => this.consumeCallEncryptionEvent(event, true)\<close>, kept as its delay and event.
\<close>

record ('rs, 's) manager =
  client :: "'rs client"
  roomSessions :: "(string \<times> 's session_obj) list"
  next_ref :: nat
  emitted :: "(MatrixRTCSessionManagerEvents \<times> string \<times> nat) list"
  logged :: "(log_level \<times> string) list"
  timers :: "(nat \<times> matrix_event) list"
  session_calls :: "session_call list"

definition has :: "(string \<times> 'v) list \<Rightarrow> string \<Rightarrow> bool" where
  "has al k = (map_of al k \<noteq> None)"

definition emit ::
  "MatrixRTCSessionManagerEvents \<Rightarrow> string \<Rightarrow> 's session_obj \<Rightarrow> ('rs, 's) manager \<Rightarrow> ('rs, 's) manager"
where
  "emit ev rid sess m = m\<lparr>emitted := emitted m @ [(ev, rid, session_ref sess)]\<rparr>"

definition logger :: "log_level \<Rightarrow> string \<Rightarrow> ('rs, 's) manager \<Rightarrow> ('rs, 's) manager" where
  "logger lvl msg m = m\<lparr>logged := logged m @ [(lvl, msg)]\<rparr>"

definition setTimeout :: "matrix_event \<Rightarrow> nat \<Rightarrow> ('rs, 's) manager \<Rightarrow> ('rs, 's) manager" where
  "setTimeout event delay m = m\<lparr>timers := timers m @ [(delay, event)]\<rparr>"

text \<open>
  Invoking an operation on a session object mutates that object wherever the registry
  refers to it, and is recorded in \<open>session_calls\<close>.
\<close>

definition mutate ::
  "nat \<Rightarrow> ('s \<Rightarrow> 's) \<Rightarrow> (string \<times> 's session_obj) list \<Rightarrow> (string \<times> 's session_obj) list"
where
  "mutate r f al =
     map (\<lambda>(k, s). (k, if session_ref s = r then s\<lparr>session_state := f (session_state s)\<rparr> else s)) al"

definition invoke ::
  "session_call \<Rightarrow> nat \<Rightarrow> ('s \<Rightarrow> 's) \<Rightarrow> ('rs, 's) manager \<Rightarrow> ('rs, 's) manager"
where
  "invoke c r f m =
     m\<lparr>roomSessions := mutate r f (roomSessions m), session_calls := session_calls m @ [c]\<rparr>"

text \<open>
  The four log messages, as the source's template literals build them
  (\<^verbatim>\<open>${event.getRoomId()}\<close> prints an undefined room id as \<^verbatim>\<open>undefined\<close>).
\<close>

definition show_room_id :: "string option \<Rightarrow> string" where
  "show_room_id r = (case r of None \<Rightarrow> ''undefined'' | Some s \<Rightarrow> s)"

definition msg_will_retry :: "matrix_event \<Rightarrow> string" where
  "msg_will_retry event =
     ''Decryption failed for event '' @ getId event @ '': '' @ decryptionFailureReason event @
     '' will retry once only''"

definition msg_failed :: "matrix_event \<Rightarrow> string" where
  "msg_failed event =
     ''Decryption failed for event '' @ getId event @ '': '' @ decryptionFailureReason event"

definition msg_succeeded :: "matrix_event \<Rightarrow> string" where
  "msg_succeeded event = ''Decryption succeeded for event '' @ getId event @ '' after retry''"

definition msg_unknown_room :: "matrix_event \<Rightarrow> string" where
  "msg_unknown_room event =
     ''Got room state event for unknown room '' @ show_room_id (getRoomId event) @ ''!''"

subsection \<open>The methods\<close>

text \<open>\<^verbatim>\<open>getActiveRoomSession\<close>: the lookup that never creates.\<close>

definition getActiveRoomSession :: "'rs room \<Rightarrow> ('rs, 's) manager \<Rightarrow> 's session_obj option" where
  "getActiveRoomSession room m = map_of (roomSessions m) (roomId room)"

text \<open>
  \<^verbatim>\<open>getRoomSession\<close>: creates and registers a session when the room has none, and returns
  the registered one. The result of \<^verbatim>\<open>get(...)!\<close> is written with \<open>the\<close>: the entry
  is there in both branches (lemma \<open>getRoomSession_registered\<close> below).
\<close>

definition getRoomSession ::
  "('rs, 's) session_api \<Rightarrow> 'rs room \<Rightarrow> ('rs, 's) manager \<Rightarrow> 's session_obj \<times> ('rs, 's) manager"
where
  "getRoomSession api room m =
     (let m1 =
        (if \<not> has (roomSessions m) (roomId room)
         then m\<lparr>roomSessions :=
                  AList.update (roomId room)
                    \<lparr>session_ref = next_ref m,
                     session_state = roomSessionForRoom api (client m) room\<rparr>
                    (roomSessions m),
                next_ref := Suc (next_ref m)\<rparr>
         else m)
      in (the (map_of (roomSessions m1) (roomId room)), m1))"

text \<open>
  \<^verbatim>\<open>refreshRoom\<close>. After \<^verbatim>\<open>sess.onRTCSessionMemberUpdate()\<close> the source reads
  \<^verbatim>\<open>sess.memberships\<close> again, and passes \<^verbatim>\<open>this.roomSessions.get(room.roomId)!\<close>
  to \<^verbatim>\<open>emit\<close>: both are the updated registry entry.
\<close>

definition refreshRoom ::
  "('rs, 's) session_api \<Rightarrow> 'rs room \<Rightarrow> ('rs, 's) manager \<Rightarrow> ('rs, 's) manager"
where
  "refreshRoom api room m =
     (let isNewSession = \<not> has (roomSessions m) (roomId room);
          (sess, m1) = getRoomSession api room m;
          wasActiveAndKnown = (length (memberships api (session_state sess)) > 0 \<and> \<not> isNewSession);
          m2 = invoke (Call_onRTCSessionMemberUpdate (session_ref sess)) (session_ref sess)
                 (onRTCSessionMemberUpdate api (client m1)) m1;
          sess' = the (map_of (roomSessions m2) (roomId room));
          nowActive = (length (memberships api (session_state sess')) > 0)
      in if wasActiveAndKnown \<and> \<not> nowActive then emit SessionEnded (roomId room) sess' m2
         else if \<not> wasActiveAndKnown \<and> nowActive then emit SessionStarted (roomId room) sess' m2
         else m2)"

text \<open>
  \<^verbatim>\<open>consumeCallEncryptionEvent\<close>. The function is \<^verbatim>\<open>async\<close>: it awaits the decryption
  and then runs to its end without another pause. The model is what one invocation does
  from the moment the awaited promise has resolved, with the event as
  \<open>decryptEventIfNeeded\<close> left it; as the client's answers are arbitrary, this covers a
  decryption that was asked for earlier than the rest runs. The timer callback holds that
  same event object.
\<close>

definition consumeCallEncryptionEvent ::
  "('rs, 's) session_api \<Rightarrow> matrix_event \<Rightarrow> bool \<Rightarrow> ('rs, 's) manager \<Rightarrow> ('rs, 's) manager"
where
  "consumeCallEncryptionEvent api event0 isRetry m =
     (let event = decryptEventIfNeeded (client m) event0 in
      if isDecryptionFailure event then
        (if \<not> isRetry then
           setTimeout event 1000 (logger Log_warn (msg_will_retry event) m)
         else
           logger Log_warn (msg_failed event) m)
      else
        (let m1 = (if isRetry then logger Log_info (msg_succeeded event) m else m)
         in if getType event \<noteq> CallEncryptionKeysPrefix then m1
            else
              (case getRoom (client m1) (getRoomId event) of
                 None \<Rightarrow> logger Log_error (msg_unknown_room event) m1
               | Some room \<Rightarrow>
                   (let (sess, m2) = getRoomSession api room m1
                    in invoke (Call_onCallEncryption (session_ref sess) event) (session_ref sess)
                         (onCallEncryption api event) m2))))"

definition onTimeline ::
  "('rs, 's) session_api \<Rightarrow> matrix_event \<Rightarrow> ('rs, 's) manager \<Rightarrow> ('rs, 's) manager"
where
  "onTimeline api event m = consumeCallEncryptionEvent api event False m"

text \<open>
  A pending timer fires: it leaves the timer queue and its callback
  \<^verbatim>\<open>consumeCallEncryptionEvent(event, true)\<close> runs. Nothing cancels a timer, so this can
  happen in any state, whatever was called in between.
\<close>

definition timerFires ::
  "('rs, 's) session_api \<Rightarrow> nat \<Rightarrow> ('rs, 's) manager \<Rightarrow> ('rs, 's) manager"
where
  "timerFires api i m =
     (if i < length (timers m)
      then consumeCallEncryptionEvent api (snd (timers m ! i)) True
             (m\<lparr>timers := take i (timers m) @ drop (Suc i) (timers m)\<rparr>)
      else m)"

definition onRoom ::
  "('rs, 's) session_api \<Rightarrow> 'rs room \<Rightarrow> ('rs, 's) manager \<Rightarrow> ('rs, 's) manager"
where
  "onRoom api room m = refreshRoom api room m"

text \<open>\<^verbatim>\<open>onRoomState\<close>; its second parameter \<^verbatim>\<open>_state\<close> is unused in the source.\<close>

definition onRoomState ::
  "('rs, 's) session_api \<Rightarrow> matrix_event \<Rightarrow> ('rs, 's) manager \<Rightarrow> ('rs, 's) manager"
where
  "onRoomState api event m =
     (case getRoom (client m) (getRoomId event) of
        None \<Rightarrow> logger Log_error (msg_unknown_room event) m
      | Some room \<Rightarrow>
          if getType event = GroupCallMemberPrefix then refreshRoom api room m else m)"

text \<open>
  \<^verbatim>\<open>start\<close>: the loop over \<^verbatim>\<open>this.client.getRooms() ?? []\<close> (\<open>known_rooms\<close>), then
  the three subscriptions.
\<close>

definition known_rooms :: "'rs client \<Rightarrow> 'rs room list" where
  "known_rooms c = (case getRooms c of None \<Rightarrow> [] | Some rooms \<Rightarrow> rooms)"

fun start_rooms ::
  "('rs, 's) session_api \<Rightarrow> 'rs room list \<Rightarrow> ('rs, 's) manager \<Rightarrow> ('rs, 's) manager"
where
  "start_rooms api [] m = m"
| "start_rooms api (room # rooms) m =
     (let session = \<lparr>session_ref = next_ref m,
                     session_state = roomSessionForRoom api (client m) room\<rparr>;
          m1 = m\<lparr>next_ref := Suc (next_ref m)\<rparr>;
          m2 = (if length (memberships api (session_state session)) > 0
                then m1\<lparr>roomSessions := AList.update (roomId room) session (roomSessions m1)\<rparr>
                else m1)
      in start_rooms api rooms m2)"

definition start :: "('rs, 's) session_api \<Rightarrow> ('rs, 's) manager \<Rightarrow> ('rs, 's) manager" where
  "start api m =
     (let m1 = start_rooms api (known_rooms (client m)) m
      in m1\<lparr>client :=
              client_on RoomStateEvent_Events Handler_onRoomState
                (client_on RoomEvent_Timeline Handler_onTimeline
                   (client_on ClientEvent_Room Handler_onRoom (client m1)))\<rparr>)"

text \<open>
  \<^verbatim>\<open>stop\<close>: \<^verbatim>\<open>sess.stop()\<close> on every value of the map, then \<^verbatim>\<open>clear()\<close>, then the
  three \<^verbatim>\<open>off\<close>.
\<close>

fun stop_sessions ::
  "('rs, 's) session_api \<Rightarrow> 's session_obj list \<Rightarrow> ('rs, 's) manager \<Rightarrow> ('rs, 's) manager"
where
  "stop_sessions api [] m = m"
| "stop_sessions api (sess # rest) m =
     stop_sessions api rest
       (invoke (Call_stop (session_ref sess)) (session_ref sess) (session_stop api) m)"

definition stop :: "('rs, 's) session_api \<Rightarrow> ('rs, 's) manager \<Rightarrow> ('rs, 's) manager" where
  "stop api m =
     (let m1 = stop_sessions api (map snd (roomSessions m)) m;
          m2 = m1\<lparr>roomSessions := []\<rparr>
      in m2\<lparr>client :=
              client_off RoomStateEvent_Events Handler_onRoomState
                (client_off RoomEvent_Timeline Handler_onTimeline
                   (client_off ClientEvent_Room Handler_onRoom (client m2)))\<rparr>)"


subsection \<open>Construction, and a session class to run examples on\<close>

text \<open>The constructor: an empty map. Nothing has been emitted, logged or scheduled.\<close>

definition new_manager :: "'rs client \<Rightarrow> ('rs, 's) manager" where
  "new_manager c =
     \<lparr>client = c, roomSessions = [], next_ref = 0, emitted = [], logged = [], timers = [],
      session_calls = []\<rparr>"

text \<open>
  A client that knows the given rooms, resolves exactly their ids, and decrypts with the
  given function.
\<close>

definition client_of :: "'rs room list \<Rightarrow> (matrix_event \<Rightarrow> matrix_event) \<Rightarrow> 'rs client" where
  "client_of rooms decrypt =
     \<lparr>getRooms = Some rooms,
      getRoom = (\<lambda>rid. case rid of None \<Rightarrow> None
                       | Some i \<Rightarrow> find (\<lambda>room. roomId room = i) rooms),
      decryptEventIfNeeded = decrypt,
      listeners = []\<rparr>"

text \<open>
  A session class for concrete runs. The state of a room is the list of users with a call
  membership in it; a session remembers its room id and its memberships, takes them from
  the room when it is made, and takes them again from the client's current room on
  \<open>onRTCSessionMemberUpdate\<close>.
\<close>

definition room_state_api :: "(string list, string \<times> string list) session_api" where
  "room_state_api =
     \<lparr>roomSessionForRoom = (\<lambda>c room. (roomId room, currentState room)),
      memberships = snd,
      onRTCSessionMemberUpdate =
        (\<lambda>c s. case getRoom c (Some (fst s)) of
                  None \<Rightarrow> s
                | Some room \<Rightarrow> (fst s, currentState room)),
      onCallEncryption = (\<lambda>event s. s),
      session_stop = (\<lambda>s. s)\<rparr>"

definition room_a :: "string list \<Rightarrow> string list room" where
  "room_a members = \<lparr>roomId = ''!a:example.org'', currentState = members\<rparr>"

definition room_b :: "string list \<Rightarrow> string list room" where
  "room_b members = \<lparr>roomId = ''!b:example.org'', currentState = members\<rparr>"

text \<open>Decryption that fails, decryption that succeeds, and a key event of room a.\<close>

definition decrypt_fails :: "matrix_event \<Rightarrow> matrix_event" where
  "decrypt_fails event =
     event\<lparr>isDecryptionFailure := True, decryptionFailureReason := ''MEGOLM_UNKNOWN_INBOUND_SESSION_ID''\<rparr>"

definition decrypt_ok :: "matrix_event \<Rightarrow> matrix_event" where
  "decrypt_ok event = event\<lparr>isDecryptionFailure := False, decryptionFailureReason := ''null''\<rparr>"

definition event_in :: "string option \<Rightarrow> string \<Rightarrow> matrix_event" where
  "event_in rid type =
     \<lparr>getId = ''$ev1'', getRoomId = rid, getType = type, isDecryptionFailure = False,
      decryptionFailureReason = ''null''\<rparr>"

subsection \<open>Active before, active after\<close>

text \<open>
  The two predicates of the refresh algorithm. \<open>wasActive\<close> is read before the update:
  the session that \<open>getRoomSession\<close> hands back has members, and the room was in the
  registry already. \<open>isActive\<close> is read in a later state: the room's registered session
  has members.
\<close>

definition wasActive :: "('rs, 's) session_api \<Rightarrow> 'rs room \<Rightarrow> ('rs, 's) manager \<Rightarrow> bool" where
  "wasActive api room m =
     (memberships api (session_state (fst (getRoomSession api room m))) \<noteq> [] \<and>
      has (roomSessions m) (roomId room))"

definition isActive :: "('rs, 's) session_api \<Rightarrow> 'rs room \<Rightarrow> ('rs, 's) manager \<Rightarrow> bool" where
  "isActive api room m =
     (case map_of (roomSessions m) (roomId room) of
        None \<Rightarrow> False
      | Some s \<Rightarrow> memberships api (session_state s) \<noteq> [])"

subsection \<open>The manager while it runs\<close>

text \<open>
  Between \<open>start\<close> and \<open>stop\<close> the manager is driven by its three handlers, by timers
  that fire and by callers of the two lookups, in any order; in between, the outside world
  changes what the client answers (rooms appear, room state changes, keys arrive; the
  listeners stay) and whoever holds a session object may change its state.
\<close>

datatype ('rs, 's) operation =
    Op_onRoom "'rs room"
  | Op_onTimeline matrix_event
  | Op_onRoomState matrix_event
  | Op_timerFires nat
  | Op_getRoomSession "'rs room"
  | Op_getActiveRoomSession "'rs room"
  | Op_clientChanges "'rs client"
  | Op_sessionChanges nat "'s \<Rightarrow> 's"

fun step ::
  "('rs, 's) session_api \<Rightarrow> ('rs, 's) operation \<Rightarrow> ('rs, 's) manager \<Rightarrow> ('rs, 's) manager"
where
  "step api (Op_onRoom room) m = onRoom api room m"
| "step api (Op_onTimeline event) m = onTimeline api event m"
| "step api (Op_onRoomState event) m = onRoomState api event m"
| "step api (Op_timerFires i) m = timerFires api i m"
| "step api (Op_getRoomSession room) m = snd (getRoomSession api room m)"
| "step api (Op_getActiveRoomSession room) m = m"
| "step api (Op_clientChanges c) m = m\<lparr>client := c\<lparr>listeners := listeners (client m)\<rparr>\<rparr>"
| "step api (Op_sessionChanges r f) m = m\<lparr>roomSessions := mutate r f (roomSessions m)\<rparr>"

definition run ::
  "('rs, 's) session_api \<Rightarrow> ('rs, 's) operation list \<Rightarrow> ('rs, 's) manager \<Rightarrow> ('rs, 's) manager"
where
  "run api ops m = fold (step api) ops m"

text \<open>
  One registry extends another when every room registered in the first is registered in
  the second with the same session object, and no room is listed twice if none was.
\<close>

definition registry_extends ::
  "(string \<times> 's session_obj) list \<Rightarrow> (string \<times> 's session_obj) list \<Rightarrow> bool"
where
  "registry_extends al al' =
     ((\<forall>k s. map_of al k = Some s \<longrightarrow>
         (\<exists>s'. map_of al' k = Some s' \<and> session_ref s' = session_ref s)) \<and>
      (distinct (map fst al) \<longrightarrow> distinct (map fst al')))"

text \<open>
  The states a manager can be in: made by the constructor, then started, stopped and
  driven as above, in any order.
\<close>

inductive reachable :: "('rs, 's) session_api \<Rightarrow> ('rs, 's) manager \<Rightarrow> bool"
  for api :: "('rs, 's) session_api"
where
  constructed: "reachable api (new_manager c)"
| started: "reachable api m \<Longrightarrow> reachable api (start api m)"
| stopped: "reachable api m \<Longrightarrow> reachable api (stop api m)"
| stepped: "reachable api m \<Longrightarrow> reachable api (step api op m)"

text \<open>
  The registry's entries hold different session objects, all made before \<open>next_ref\<close>.
\<close>

definition distinct_objects :: "('rs, 's) manager \<Rightarrow> bool" where
  "distinct_objects m =
     (distinct (map (\<lambda>entry. session_ref (snd entry)) (roomSessions m)) \<and>
      (\<forall>entry \<in> set (roomSessions m). session_ref (snd entry) < next_ref m))"

section \<open>Properties\<close>

lemmas fixture_defs = new_manager_def client_of_def room_state_api_def room_a_def room_b_def
  decrypt_fails_def decrypt_ok_def event_in_def

subsection \<open>Session objects in the registry\<close>

lemma keys_mutate: "map fst (mutate r f al) = map fst al"
  by (simp add: mutate_def case_prod_unfold comp_def)

lemma map_of_mutate:
  "map_of (mutate r f al) k =
     map_option (\<lambda>s. if session_ref s = r then s\<lparr>session_state := f (session_state s)\<rparr> else s)
       (map_of al k)"
proof (induction al)
  case Nil
  show ?case by (simp add: mutate_def)
next
  case (Cons p al)
  obtain k' s where p: "p = (k', s)" by (cases p)
  have step: "mutate r f (p # al) =
      (k', if session_ref s = r then s\<lparr>session_state := f (session_state s)\<rparr> else s) # mutate r f al"
    by (simp add: mutate_def p)
  show ?case unfolding step using Cons.IH by (simp add: p)
qed

lemma getRoomSession_registered:
  "map_of (roomSessions (snd (getRoomSession api room m))) (roomId room) =
     Some (fst (getRoomSession api room m))"
  by (cases "map_of (roomSessions m) (roomId room)")
     (simp_all add: getRoomSession_def has_def AList.update_conv')

lemma getRoomSession_frame:
  "emitted (snd (getRoomSession api room m)) = emitted m"
  "logged (snd (getRoomSession api room m)) = logged m"
  "timers (snd (getRoomSession api room m)) = timers m"
  "session_calls (snd (getRoomSession api room m)) = session_calls m"
  "client (snd (getRoomSession api room m)) = client m"
  by (simp_all add: getRoomSession_def)

subsection \<open>The creating lookup\<close>

lemma update_absent: "map_of al k = None \<Longrightarrow> AList.update k v al = al @ [(k, v)]"
  by (induction al) (auto split: if_splits)

lemma getRoomSession_new:
  "\<not> has (roomSessions m) (roomId room) \<Longrightarrow>
   fst (getRoomSession api room m) =
     \<lparr>session_ref = next_ref m, session_state = roomSessionForRoom api (client m) room\<rparr>"
  by (simp add: getRoomSession_def has_def AList.update_conv')

lemma getRoomSession_existing:
  "map_of (roomSessions m) (roomId room) = Some s \<Longrightarrow> fst (getRoomSession api room m) = s"
  by (simp add: getRoomSession_def has_def)

lemma getRoomSession_logged:
  "getRoomSession api room (m\<lparr>logged := l\<rparr>) =
     (fst (getRoomSession api room m), (snd (getRoomSession api room m))\<lparr>logged := l\<rparr>)"
  by (simp add: getRoomSession_def)

text \<open>
  C10. \<open>getRoomSession\<close> emits nothing, invokes no operation on any session object, logs
  nothing, sets no timer and leaves the client alone. When the room is registered the
  manager is unchanged; when it is not, the only change is the new entry (a new session
  object, whatever its memberships) at the end of the registry.
\<close>

theorem getRoomSession_effect:
  "emitted (snd (getRoomSession api room m)) = emitted m \<and>
   session_calls (snd (getRoomSession api room m)) = session_calls m \<and>
   logged (snd (getRoomSession api room m)) = logged m \<and>
   timers (snd (getRoomSession api room m)) = timers m \<and>
   client (snd (getRoomSession api room m)) = client m \<and>
   (has (roomSessions m) (roomId room) \<longrightarrow> snd (getRoomSession api room m) = m) \<and>
   (\<not> has (roomSessions m) (roomId room) \<longrightarrow>
      snd (getRoomSession api room m) =
        m\<lparr>roomSessions := roomSessions m @
             [(roomId room,
               \<lparr>session_ref = next_ref m,
                session_state = roomSessionForRoom api (client m) room\<rparr>)],
          next_ref := Suc (next_ref m)\<rparr>)"
  by (simp add: getRoomSession_def has_def update_absent)

text \<open>A room with one member, not registered yet: the new entry is all that changes.\<close>

theorem getRoomSession_effect_witness:
  "\<not> has (roomSessions (new_manager (client_of [room_a [''@alice:example.org'']] decrypt_ok)
            :: (string list, string \<times> string list) manager)) (roomId (room_a [''@alice:example.org''])) \<and>
   snd (getRoomSession room_state_api (room_a [''@alice:example.org''])
          (new_manager (client_of [room_a [''@alice:example.org'']] decrypt_ok))) =
     \<lparr>client = client_of [room_a [''@alice:example.org'']] decrypt_ok,
      roomSessions =
        [(''!a:example.org'',
          \<lparr>session_ref = 0, session_state = (''!a:example.org'', [''@alice:example.org''])\<rparr>)],
      next_ref = 1, emitted = [], logged = [], timers = [], session_calls = []\<rparr> \<and>
   has (roomSessions
          (snd (getRoomSession room_state_api (room_a [''@alice:example.org''])
             (new_manager (client_of [room_a [''@alice:example.org'']] decrypt_ok)))))
     (roomId (room_a [''@alice:example.org''])) \<and>
   snd (getRoomSession room_state_api (room_a [''@alice:example.org''])
          (snd (getRoomSession room_state_api (room_a [''@alice:example.org''])
             (new_manager (client_of [room_a [''@alice:example.org'']] decrypt_ok))))) =
     snd (getRoomSession room_state_api (room_a [''@alice:example.org''])
            (new_manager (client_of [room_a [''@alice:example.org'']] decrypt_ok)))"
proof -
  let ?m = "new_manager (client_of [room_a [''@alice:example.org'']] decrypt_ok)
            :: (string list, string \<times> string list) manager"
  let ?ra = "room_a [''@alice:example.org'']"
  let ?m1 = "snd (getRoomSession room_state_api ?ra ?m)"
  have h: "\<not> has (roomSessions ?m) (roomId ?ra)"
    by (simp add: has_def new_manager_def)
  from getRoomSession_effect [of room_state_api ?ra ?m] h
  have "?m1 =
        ?m\<lparr>roomSessions := roomSessions ?m @
             [(roomId ?ra,
               \<lparr>session_ref = next_ref ?m,
                session_state = roomSessionForRoom room_state_api (client ?m) ?ra\<rparr>)],
          next_ref := Suc (next_ref ?m)\<rparr>"
    by blast
  then have w1: "?m1 =
     \<lparr>client = client_of [room_a [''@alice:example.org'']] decrypt_ok,
      roomSessions =
        [(''!a:example.org'',
          \<lparr>session_ref = 0, session_state = (''!a:example.org'', [''@alice:example.org''])\<rparr>)],
      next_ref = 1, emitted = [], logged = [], timers = [], session_calls = []\<rparr>"
    by (simp add: new_manager_def room_state_api_def room_a_def)
  have h2: "has (roomSessions ?m1) (roomId ?ra)"
    unfolding w1 by (simp add: has_def room_a_def)
  from getRoomSession_effect [of room_state_api ?ra ?m1] h2
  have w2: "snd (getRoomSession room_state_api ?ra ?m1) = ?m1"
    by blast
  from h w1 h2 w2 show ?thesis by blast
qed

subsection \<open>The refresh algorithm\<close>

lemma refreshRoom_session:
  "map_of (roomSessions (refreshRoom api room m)) (roomId room) =
     Some ((fst (getRoomSession api room m))
            \<lparr>session_state :=
               onRTCSessionMemberUpdate api (client m)
                 (session_state (fst (getRoomSession api room m)))\<rparr>)"
proof -
  obtain sess m1 where g: "getRoomSession api room m = (sess, m1)"
    by (cases "getRoomSession api room m")
  have reg: "map_of (roomSessions m1) (roomId room) = Some sess"
    using getRoomSession_registered [of api room m] g by simp
  have c: "client m1 = client m"
    using getRoomSession_frame(5) [of api room m] g by simp
  show ?thesis
    unfolding refreshRoom_def g
    by (simp add: Let_def invoke_def emit_def map_of_mutate reg c)
qed

lemma refreshRoom_emitted:
  "emitted (refreshRoom api room m) =
     emitted m @
       (if (memberships api (session_state (fst (getRoomSession api room m))) \<noteq> [] \<and>
            has (roomSessions m) (roomId room)) \<and>
           memberships api
             (onRTCSessionMemberUpdate api (client m)
                (session_state (fst (getRoomSession api room m)))) = []
        then [(SessionEnded, roomId room, session_ref (fst (getRoomSession api room m)))]
        else if \<not> (memberships api (session_state (fst (getRoomSession api room m))) \<noteq> [] \<and>
                   has (roomSessions m) (roomId room)) \<and>
                memberships api
                  (onRTCSessionMemberUpdate api (client m)
                     (session_state (fst (getRoomSession api room m)))) \<noteq> []
        then [(SessionStarted, roomId room, session_ref (fst (getRoomSession api room m)))]
        else [])"
proof -
  obtain sess m1 where g: "getRoomSession api room m = (sess, m1)"
    by (cases "getRoomSession api room m")
  have reg: "map_of (roomSessions m1) (roomId room) = Some sess"
    using getRoomSession_registered [of api room m] g by simp
  have c: "client m1 = client m" and e: "emitted m1 = emitted m"
    using getRoomSession_frame(5,1) [of api room m] g by simp_all
  show ?thesis
    unfolding refreshRoom_def g
    by (simp add: Let_def invoke_def emit_def map_of_mutate reg c e)
qed

lemma refreshRoom_registry:
  "roomSessions (refreshRoom api room m) =
     mutate (session_ref (fst (getRoomSession api room m)))
       (onRTCSessionMemberUpdate api (client m))
       (roomSessions (snd (getRoomSession api room m)))"
proof -
  obtain sess m1 where g: "getRoomSession api room m = (sess, m1)"
    by (cases "getRoomSession api room m")
  have c: "client m1 = client m"
    using getRoomSession_frame(5) [of api room m] g by simp
  show ?thesis
    unfolding refreshRoom_def g
    by (simp add: Let_def invoke_def emit_def c)
qed

lemma refreshRoom_calls:
  "session_calls (refreshRoom api room m) =
     session_calls m @
       [Call_onRTCSessionMemberUpdate (session_ref (fst (getRoomSession api room m)))]"
proof -
  obtain sess m1 where g: "getRoomSession api room m = (sess, m1)"
    by (cases "getRoomSession api room m")
  have c: "session_calls m1 = session_calls m"
    using getRoomSession_frame(4) [of api room m] g by simp
  show ?thesis
    unfolding refreshRoom_def g
    by (simp add: Let_def invoke_def emit_def c)
qed

text \<open>
  C1. Let the session be the one \<open>getRoomSession\<close> hands back for the room, \<open>wasActive\<close>
  be read before the update (that session has members, and the room was registered
  already), and active-after mean that the state \<open>onRTCSessionMemberUpdate\<close> gives that
  session has members. One run of \<open>refreshRoom\<close> invokes \<open>onRTCSessionMemberUpdate\<close>
  once, on that session, and leaves the updated session registered for the room, so that
  \<open>isActive\<close> read off the result is active-after. It appends to the notifications
  emitted so far: exactly SessionEnded (for this room and this session object) when
  \<open>wasActive\<close> and not active-after; exactly SessionStarted when not \<open>wasActive\<close> and
  active-after; nothing in the two remaining cases. So a refresh emits at most one
  notification, and none when the room is active before and after, or inactive before and
  after.
\<close>

theorem refreshRoom_notifications:
  "emitted (refreshRoom api room m) =
     emitted m @
       (if wasActive api room m \<and>
           memberships api
             (onRTCSessionMemberUpdate api (client m)
                (session_state (fst (getRoomSession api room m)))) = []
        then [(SessionEnded, roomId room, session_ref (fst (getRoomSession api room m)))]
        else if \<not> wasActive api room m \<and>
                memberships api
                  (onRTCSessionMemberUpdate api (client m)
                     (session_state (fst (getRoomSession api room m)))) \<noteq> []
        then [(SessionStarted, roomId room, session_ref (fst (getRoomSession api room m)))]
        else []) \<and>
   session_calls (refreshRoom api room m) =
     session_calls m @
       [Call_onRTCSessionMemberUpdate (session_ref (fst (getRoomSession api room m)))] \<and>
   map_of (roomSessions (refreshRoom api room m)) (roomId room) =
     Some ((fst (getRoomSession api room m))
            \<lparr>session_state :=
               onRTCSessionMemberUpdate api (client m)
                 (session_state (fst (getRoomSession api room m)))\<rparr>) \<and>
   isActive api room (refreshRoom api room m) =
     (memberships api
        (onRTCSessionMemberUpdate api (client m)
           (session_state (fst (getRoomSession api room m)))) \<noteq> [])"
  unfolding isActive_def refreshRoom_session wasActive_def refreshRoom_emitted refreshRoom_calls
  by simp

text \<open>
  Room a is seen for the first time with one member: SessionStarted for session object 0.
  Room a is registered with one member and its members have left: SessionEnded for object 0.
  Room a is registered with one member and a second one has joined: nothing.
\<close>

theorem refreshRoom_notifications_witness:
  "emitted (refreshRoom room_state_api (room_a [''@alice:example.org''])
      (new_manager (client_of [room_a [''@alice:example.org'']] decrypt_ok)))
   = [(SessionStarted, ''!a:example.org'', 0)] \<and>
   emitted (refreshRoom room_state_api (room_a [])
      ((snd (getRoomSession room_state_api (room_a [''@alice:example.org''])
          (new_manager (client_of [room_a [''@alice:example.org'']] decrypt_ok))))
       \<lparr>client := client_of [room_a []] decrypt_ok\<rparr>))
   = [(SessionEnded, ''!a:example.org'', 0)] \<and>
   emitted (refreshRoom room_state_api (room_a [''@alice:example.org'', ''@bob:example.org''])
      ((snd (getRoomSession room_state_api (room_a [''@alice:example.org''])
          (new_manager (client_of [room_a [''@alice:example.org'']] decrypt_ok))))
       \<lparr>client := client_of [room_a [''@alice:example.org'', ''@bob:example.org'']] decrypt_ok\<rparr>))
   = []"
proof -
  let ?m0 = "new_manager (client_of [room_a [''@alice:example.org'']] decrypt_ok)
      :: (string list, string \<times> string list) manager"
  let ?m1 = "snd (getRoomSession room_state_api (room_a [''@alice:example.org'']) ?m0)"
  have m1: "?m1 =
     \<lparr>client = client_of [room_a [''@alice:example.org'']] decrypt_ok,
      roomSessions =
        [(''!a:example.org'',
          \<lparr>session_ref = 0, session_state = (''!a:example.org'', [''@alice:example.org''])\<rparr>)],
      next_ref = 1, emitted = [], logged = [], timers = [], session_calls = []\<rparr>"
    by (simp add: getRoomSession_def has_def new_manager_def room_state_api_def room_a_def)
  have w1: "emitted (refreshRoom room_state_api (room_a [''@alice:example.org'']) ?m0)
      = [(SessionStarted, ''!a:example.org'', 0)]"
    unfolding refreshRoom_notifications [THEN conjunct1] wasActive_def
    by (simp add: getRoomSession_def has_def fixture_defs)
  have w2: "emitted (refreshRoom room_state_api (room_a [])
      (?m1\<lparr>client := client_of [room_a []] decrypt_ok\<rparr>))
      = [(SessionEnded, ''!a:example.org'', 0)]"
    unfolding refreshRoom_notifications [THEN conjunct1] wasActive_def m1
    by (simp add: getRoomSession_def has_def client_of_def room_state_api_def room_a_def)
  have w3: "emitted (refreshRoom room_state_api
        (room_a [''@alice:example.org'', ''@bob:example.org''])
      (?m1\<lparr>client := client_of [room_a [''@alice:example.org'', ''@bob:example.org'']]
                 decrypt_ok\<rparr>)) = []"
    unfolding refreshRoom_notifications [THEN conjunct1] wasActive_def m1
    by (simp add: getRoomSession_def has_def client_of_def room_state_api_def room_a_def)
  from w1 w2 w3 show ?thesis by blast
qed

subsection \<open>A room appears\<close>

text \<open>
  C3, as the code has it. When a room that is not in the registry appears, \<open>onRoom\<close>
  emits SessionStarted for the session it creates (object number \<open>next_ref\<close>) exactly when
  that session has members after \<open>onRTCSessionMemberUpdate\<close>, and nothing otherwise; it
  never emits SessionEnded. A new session counts as not active before, whatever members it
  was created with.
\<close>

theorem onRoom_first_sight:
  "\<not> has (roomSessions m) (roomId room) \<Longrightarrow>
   emitted (onRoom api room m) =
     emitted m @
       (if memberships api
             (onRTCSessionMemberUpdate api (client m) (roomSessionForRoom api (client m) room)) \<noteq> []
        then [(SessionStarted, roomId room, next_ref m)]
        else [])"
  unfolding onRoom_def refreshRoom_emitted
  by (simp add: getRoomSession_new)

text \<open>A room without members appears: nothing is emitted.\<close>

theorem onRoom_first_sight_witness:
  "\<not> has (roomSessions (new_manager (client_of [room_b []] decrypt_ok)
            :: (string list, string \<times> string list) manager)) (roomId (room_b [])) \<and>
   emitted (onRoom room_state_api (room_b []) (new_manager (client_of [room_b []] decrypt_ok))) = []"
proof -
  let ?m = "new_manager (client_of [room_b []] decrypt_ok)
            :: (string list, string \<times> string list) manager"
  have h: "\<not> has (roomSessions ?m) (roomId (room_b []))"
    by (simp add: has_def new_manager_def)
  show ?thesis
    using h onRoom_first_sight [OF h, of room_state_api]
    by (simp add: fixture_defs)
qed

text \<open>
  C3 as the specification words it does not hold: a room that appears with one member
  already in it, and is not registered yet, gets SessionStarted.
\<close>

theorem onRoom_discovery_counterexample:
  "\<not> has (roomSessions (new_manager (client_of [room_a [''@alice:example.org'']] decrypt_ok)
            :: (string list, string \<times> string list) manager)) ''!a:example.org'' \<and>
   memberships room_state_api
     (roomSessionForRoom room_state_api (client_of [room_a [''@alice:example.org'']] decrypt_ok)
        (room_a [''@alice:example.org''])) = [''@alice:example.org''] \<and>
   emitted (onRoom room_state_api (room_a [''@alice:example.org''])
      (new_manager (client_of [room_a [''@alice:example.org'']] decrypt_ok)))
   = [(SessionStarted, ''!a:example.org'', 0)]"
  by (simp add: onRoom_def refreshRoom_def getRoomSession_def has_def invoke_def mutate_def
      emit_def fixture_defs)

subsection \<open>The decryption gate\<close>

lemma consume_dispatch:
  assumes "\<not> isDecryptionFailure (decryptEventIfNeeded (client m) event)"
    and "getType (decryptEventIfNeeded (client m) event) = CallEncryptionKeysPrefix"
    and "getRoom (client m) (getRoomId (decryptEventIfNeeded (client m) event)) = Some room"
  shows "consumeCallEncryptionEvent api event isRetry m =
     invoke (Call_onCallEncryption (session_ref (fst (getRoomSession api room m)))
               (decryptEventIfNeeded (client m) event))
       (session_ref (fst (getRoomSession api room m)))
       (onCallEncryption api (decryptEventIfNeeded (client m) event))
       ((snd (getRoomSession api room m))
          \<lparr>logged := logged m @
             (if isRetry then [(Log_info, msg_succeeded (decryptEventIfNeeded (client m) event))]
              else [])\<rparr>)"
proof (cases isRetry)
  case True
  then show ?thesis
    using assms
    by (simp add: consumeCallEncryptionEvent_def Let_def logger_def getRoomSession_logged)
next
  case False
  have "(snd (getRoomSession api room m))\<lparr>logged := logged m\<rparr> = snd (getRoomSession api room m)"
    using getRoomSession_frame(2) [of api room m] by simp
  with False show ?thesis
    using assms
    by (simp add: consumeCallEncryptionEvent_def Let_def split_beta)
qed



subsection \<open>Events of unknown rooms\<close>




subsection \<open>Timeline events of other types\<close>

lemma consume_other_type:
  "getType (decryptEventIfNeeded (client m) event) \<noteq> CallEncryptionKeysPrefix \<Longrightarrow>
   consumeCallEncryptionEvent api event isRetry m =
     (if isDecryptionFailure (decryptEventIfNeeded (client m) event)
      then (if isRetry
            then m\<lparr>logged := logged m @
                   [(Log_warn, msg_failed (decryptEventIfNeeded (client m) event))]\<rparr>
            else m\<lparr>logged := logged m @
                   [(Log_warn, msg_will_retry (decryptEventIfNeeded (client m) event))],
                  timers := timers m @ [(1000, decryptEventIfNeeded (client m) event)]\<rparr>)
      else if isRetry
           then m\<lparr>logged := logged m @
                  [(Log_info, msg_succeeded (decryptEventIfNeeded (client m) event))]\<rparr>
           else m)"
  by (simp add: consumeCallEncryptionEvent_def logger_def setTimeout_def Let_def)

text \<open>
  C8, as the code has it. The type is read after the decryption attempt, on the first
  attempt and on the retry alike. A timeline event whose type is then not
  call-encryption-keys never changes the registry, the session objects, the notifications
  or the client, in either attempt. First attempt: when its decryption has not failed the
  manager is exactly as before; when it has failed, the warning is logged and the one retry
  is set, whatever the type. Retry (the timer fires and leaves the queue): when the
  decryption has not failed only the line about the recovered decryption is logged; when it
  has failed again only the second warning is logged; no timer is set.
\<close>

theorem other_type_ignored:
  "(getType (decryptEventIfNeeded (client m) event) \<noteq> CallEncryptionKeysPrefix \<longrightarrow>
      consumeCallEncryptionEvent api event isRetry m =
        (if isDecryptionFailure (decryptEventIfNeeded (client m) event)
         then (if isRetry
               then m\<lparr>logged := logged m @
                      [(Log_warn, msg_failed (decryptEventIfNeeded (client m) event))]\<rparr>
               else m\<lparr>logged := logged m @
                      [(Log_warn, msg_will_retry (decryptEventIfNeeded (client m) event))],
                     timers := timers m @ [(1000, decryptEventIfNeeded (client m) event)]\<rparr>)
         else if isRetry
              then m\<lparr>logged := logged m @
                     [(Log_info, msg_succeeded (decryptEventIfNeeded (client m) event))]\<rparr>
              else m) \<and>
      onTimeline api event m = consumeCallEncryptionEvent api event False m \<and>
      roomSessions (consumeCallEncryptionEvent api event isRetry m) = roomSessions m \<and>
      next_ref (consumeCallEncryptionEvent api event isRetry m) = next_ref m \<and>
      session_calls (consumeCallEncryptionEvent api event isRetry m) = session_calls m \<and>
      emitted (consumeCallEncryptionEvent api event isRetry m) = emitted m \<and>
      client (consumeCallEncryptionEvent api event isRetry m) = client m) \<and>
   (i < length (timers m) \<and>
    getType (decryptEventIfNeeded (client m) (snd (timers m ! i))) \<noteq> CallEncryptionKeysPrefix \<longrightarrow>
      timerFires api i m =
        (if isDecryptionFailure (decryptEventIfNeeded (client m) (snd (timers m ! i)))
         then m\<lparr>timers := take i (timers m) @ drop (Suc i) (timers m),
                logged := logged m @
                  [(Log_warn, msg_failed (decryptEventIfNeeded (client m) (snd (timers m ! i))))]\<rparr>
         else m\<lparr>timers := take i (timers m) @ drop (Suc i) (timers m),
                logged := logged m @
                  [(Log_info, msg_succeeded (decryptEventIfNeeded (client m) (snd (timers m ! i))))]\<rparr>))"
proof (intro conjI impI)
  assume t: "getType (decryptEventIfNeeded (client m) event) \<noteq> CallEncryptionKeysPrefix"
  note eq = consume_other_type [OF t, of api isRetry]
  show "consumeCallEncryptionEvent api event isRetry m =
        (if isDecryptionFailure (decryptEventIfNeeded (client m) event)
         then (if isRetry
               then m\<lparr>logged := logged m @
                      [(Log_warn, msg_failed (decryptEventIfNeeded (client m) event))]\<rparr>
               else m\<lparr>logged := logged m @
                      [(Log_warn, msg_will_retry (decryptEventIfNeeded (client m) event))],
                     timers := timers m @ [(1000, decryptEventIfNeeded (client m) event)]\<rparr>)
         else if isRetry
              then m\<lparr>logged := logged m @
                     [(Log_info, msg_succeeded (decryptEventIfNeeded (client m) event))]\<rparr>
              else m)"
    by (rule eq)
  show "onTimeline api event m = consumeCallEncryptionEvent api event False m"
    by (simp add: onTimeline_def)
  show "roomSessions (consumeCallEncryptionEvent api event isRetry m) = roomSessions m"
    unfolding eq by simp
  show "next_ref (consumeCallEncryptionEvent api event isRetry m) = next_ref m"
    unfolding eq by simp
  show "session_calls (consumeCallEncryptionEvent api event isRetry m) = session_calls m"
    unfolding eq by simp
  show "emitted (consumeCallEncryptionEvent api event isRetry m) = emitted m"
    unfolding eq by simp
  show "client (consumeCallEncryptionEvent api event isRetry m) = client m"
    unfolding eq by simp
next
  assume a: "i < length (timers m) \<and>
    getType (decryptEventIfNeeded (client m) (snd (timers m ! i))) \<noteq> CallEncryptionKeysPrefix"
  let ?m' = "m\<lparr>timers := take i (timers m) @ drop (Suc i) (timers m)\<rparr>"
  have t: "getType (decryptEventIfNeeded (client ?m') (snd (timers m ! i))) \<noteq>
      CallEncryptionKeysPrefix"
    using a by simp
  have "timerFires api i m = consumeCallEncryptionEvent api (snd (timers m ! i)) True ?m'"
    using a by (simp add: timerFires_def)
  then show "timerFires api i m =
        (if isDecryptionFailure (decryptEventIfNeeded (client m) (snd (timers m ! i)))
         then m\<lparr>timers := take i (timers m) @ drop (Suc i) (timers m),
                logged := logged m @
                  [(Log_warn, msg_failed (decryptEventIfNeeded (client m) (snd (timers m ! i))))]\<rparr>
         else m\<lparr>timers := take i (timers m) @ drop (Suc i) (timers m),
                logged := logged m @
                  [(Log_info, msg_succeeded (decryptEventIfNeeded (client m) (snd (timers m ! i))))]\<rparr>)"
    unfolding consume_other_type [OF t, of api True] by simp
qed

text \<open>
  An ordinary message that decrypts. On the first attempt the manager is unchanged. As a
  retry it logs the recovered decryption and nothing else; when the retry comes from a
  timer, the timer is gone afterwards.
\<close>

theorem other_type_ignored_witness:
  "getType (decryptEventIfNeeded (client_of [room_a []] decrypt_ok :: string list client)
      (event_in (Some ''!a:example.org'') ''m.room.message'')) \<noteq> CallEncryptionKeysPrefix \<and>
   onTimeline room_state_api (event_in (Some ''!a:example.org'') ''m.room.message'')
     (new_manager (client_of [room_a []] decrypt_ok)) =
   new_manager (client_of [room_a []] decrypt_ok) \<and>
   consumeCallEncryptionEvent room_state_api
     (event_in (Some ''!a:example.org'') ''m.room.message'') True
     (new_manager (client_of [room_a []] decrypt_ok)) =
   \<lparr>client = client_of [room_a []] decrypt_ok, roomSessions = [], next_ref = 0, emitted = [],
    logged = [(Log_info, ''Decryption succeeded for event $ev1 after retry'')],
    timers = [], session_calls = []\<rparr> \<and>
   timerFires room_state_api 0
     \<lparr>client = client_of [room_a []] decrypt_ok, roomSessions = [], next_ref = 0, emitted = [],
      logged = [],
      timers = [(1000, event_in (Some ''!a:example.org'') ''m.room.message'')],
      session_calls = []\<rparr> =
   \<lparr>client = client_of [room_a []] decrypt_ok, roomSessions = [], next_ref = 0, emitted = [],
    logged = [(Log_info, ''Decryption succeeded for event $ev1 after retry'')],
    timers = [], session_calls = []\<rparr>"
proof -
  let ?c = "client_of [room_a []] decrypt_ok :: string list client"
  let ?m = "new_manager ?c :: (string list, string \<times> string list) manager"
  let ?e = "event_in (Some ''!a:example.org'') ''m.room.message''"
  let ?mt = "\<lparr>client = ?c, roomSessions = [], next_ref = 0, emitted = [], logged = [],
      timers = [(1000, ?e)], session_calls = []\<rparr>
      :: (string list, string \<times> string list) manager"
  have c: "client ?m = ?c" by (simp add: new_manager_def)
  have h: "getType (decryptEventIfNeeded (client ?m) ?e) \<noteq> CallEncryptionKeysPrefix"
    by (simp add: fixture_defs CallEncryptionKeysPrefix_def)
  have nf: "\<not> isDecryptionFailure (decryptEventIfNeeded (client ?m) ?e)"
    by (simp add: fixture_defs)
  have id: "getId (decryptEventIfNeeded (client ?m) ?e) = ''$ev1''"
    by (simp add: fixture_defs)
  have first: "consumeCallEncryptionEvent room_state_api ?e False ?m = ?m"
    using other_type_ignored [of ?m ?e room_state_api False] h nf by simp
  have "onTimeline room_state_api ?e ?m = consumeCallEncryptionEvent room_state_api ?e False ?m"
    using other_type_ignored [of ?m ?e room_state_api False] h by blast
  then have w1: "onTimeline room_state_api ?e ?m = ?m"
    unfolding first .
  have "consumeCallEncryptionEvent room_state_api ?e True ?m =
      ?m\<lparr>logged := logged ?m @
           [(Log_info, msg_succeeded (decryptEventIfNeeded (client ?m) ?e))]\<rparr>"
    using other_type_ignored [of ?m ?e room_state_api True] h nf by simp
  then have w2: "consumeCallEncryptionEvent room_state_api ?e True ?m =
      \<lparr>client = ?c, roomSessions = [], next_ref = 0, emitted = [],
       logged = [(Log_info, ''Decryption succeeded for event $ev1 after retry'')],
       timers = [], session_calls = []\<rparr>"
    by (simp add: msg_succeeded_def id) (simp add: new_manager_def)
  have ht: "0 < length (timers ?mt) \<and>
      getType (decryptEventIfNeeded (client ?mt) (snd (timers ?mt ! 0))) \<noteq> CallEncryptionKeysPrefix"
    by (simp add: client_of_def decrypt_ok_def event_in_def CallEncryptionKeysPrefix_def)
  have nft: "\<not> isDecryptionFailure (decryptEventIfNeeded (client ?mt) (snd (timers ?mt ! 0)))"
    by (simp add: client_of_def decrypt_ok_def)
  have "timerFires room_state_api 0 ?mt =
      ?mt\<lparr>timers := take 0 (timers ?mt) @ drop (Suc 0) (timers ?mt),
          logged := logged ?mt @
            [(Log_info, msg_succeeded (decryptEventIfNeeded (client ?mt) (snd (timers ?mt ! 0))))]\<rparr>"
    using other_type_ignored [of ?mt _ room_state_api _ 0] ht nft by simp
  then have w3: "timerFires room_state_api 0 ?mt =
      \<lparr>client = ?c, roomSessions = [], next_ref = 0, emitted = [],
       logged = [(Log_info, ''Decryption succeeded for event $ev1 after retry'')],
       timers = [], session_calls = []\<rparr>"
    by (simp add: msg_succeeded_def id [unfolded c])
  from h w1 w2 w3 show ?thesis unfolding c by blast
qed

text \<open>
  C8 as the specification words it does not hold: an ordinary message whose decryption
  fails sets the retry timer.
\<close>

theorem other_type_retry_counterexample:
  "getType (decrypt_fails (event_in (Some ''!a:example.org'') ''m.room.message''))
     \<noteq> CallEncryptionKeysPrefix \<and>
   timers (onTimeline room_state_api (event_in (Some ''!a:example.org'') ''m.room.message'')
     (new_manager (client_of [room_a []] decrypt_fails))) =
   [(1000, decrypt_fails (event_in (Some ''!a:example.org'') ''m.room.message''))]"
  by (simp add: onTimeline_def consumeCallEncryptionEvent_def setTimeout_def logger_def
      fixture_defs CallEncryptionKeysPrefix_def Let_def)

subsection \<open>Start\<close>

lemma start_rooms_client: "client (start_rooms api rooms m) = client m"
  by (induction rooms arbitrary: m) (simp_all add: Let_def)

lemma start_rooms_frame:
  "emitted (start_rooms api rooms m) = emitted m"
  "logged (start_rooms api rooms m) = logged m"
  "timers (start_rooms api rooms m) = timers m"
  "session_calls (start_rooms api rooms m) = session_calls m"
  by (induction rooms arbitrary: m) (simp_all add: Let_def)

lemma start_rooms_keeps_active:
  "\<exists>s. map_of (roomSessions m) rid = Some s \<and> memberships api (session_state s) \<noteq> [] \<Longrightarrow>
   \<exists>s. map_of (roomSessions (start_rooms api rooms m)) rid = Some s \<and>
       memberships api (session_state s) \<noteq> []"
proof (induction rooms arbitrary: m)
  case Nil
  then show ?case by simp
next
  case (Cons room rooms)
  show ?case
  proof (cases "memberships api (roomSessionForRoom api (client m) room) = []")
    case True
    then have "start_rooms api (room # rooms) m =
        start_rooms api rooms (m\<lparr>next_ref := Suc (next_ref m)\<rparr>)"
      by (simp add: Let_def)
    moreover have "\<exists>s. map_of (roomSessions (m\<lparr>next_ref := Suc (next_ref m)\<rparr>)) rid = Some s \<and>
        memberships api (session_state s) \<noteq> []"
      using Cons.prems by simp
    ultimately show ?thesis using Cons.IH by simp
  next
    case False
    let ?m2 = "m\<lparr>next_ref := Suc (next_ref m),
                 roomSessions := AList.update (roomId room)
                   \<lparr>session_ref = next_ref m,
                    session_state = roomSessionForRoom api (client m) room\<rparr> (roomSessions m)\<rparr>"
    from False have eq: "start_rooms api (room # rooms) m = start_rooms api rooms ?m2"
      by (simp add: Let_def)
    have "\<exists>s. map_of (roomSessions ?m2) rid = Some s \<and> memberships api (session_state s) \<noteq> []"
      using Cons.prems False by (cases "rid = roomId room") (simp_all add: AList.update_conv')
    then show ?thesis unfolding eq by (rule Cons.IH)
  qed
qed

lemma start_rooms_registers:
  "room \<in> set rooms \<Longrightarrow> roomSessionForRoom api (client m) = mk \<Longrightarrow>
   memberships api (mk room) \<noteq> [] \<Longrightarrow>
   \<exists>s. map_of (roomSessions (start_rooms api rooms m)) (roomId room) = Some s \<and>
       memberships api (session_state s) \<noteq> []"
proof (induction rooms arbitrary: m)
  case Nil
  then show ?case by simp
next
  case (Cons r rooms)
  let ?m1 = "m\<lparr>next_ref := Suc (next_ref m)\<rparr>"
  let ?m2 = "m\<lparr>next_ref := Suc (next_ref m),
               roomSessions := AList.update (roomId r)
                 \<lparr>session_ref = next_ref m,
                  session_state = roomSessionForRoom api (client m) r\<rparr> (roomSessions m)\<rparr>"
  show ?case
  proof (cases "memberships api (roomSessionForRoom api (client m) r) = []")
    case True
    then have eq: "start_rooms api (r # rooms) m = start_rooms api rooms ?m1"
      by (simp add: Let_def)
    have "room \<noteq> r" using True Cons.prems by auto
    then have "room \<in> set rooms" using Cons.prems(1) by simp
    moreover have "roomSessionForRoom api (client ?m1) = mk" using Cons.prems(2) by simp
    ultimately show ?thesis unfolding eq using Cons.IH Cons.prems(3) by blast
  next
    case False
    then have eq: "start_rooms api (r # rooms) m = start_rooms api rooms ?m2"
      by (simp add: Let_def)
    show ?thesis
    proof (cases "room = r")
      case True
      have "\<exists>s. map_of (roomSessions ?m2) (roomId room) = Some s \<and>
          memberships api (session_state s) \<noteq> []"
        using True False by (simp add: AList.update_conv')
      then show ?thesis unfolding eq by (rule start_rooms_keeps_active)
    next
      case neq: False
      then have "room \<in> set rooms" using Cons.prems(1) by simp
      moreover have "roomSessionForRoom api (client ?m2) = mk" using Cons.prems(2) by simp
      ultimately show ?thesis unfolding eq using Cons.IH Cons.prems(3) by blast
    qed
  qed
qed

lemma start_rooms_skips:
  "roomSessionForRoom api (client m) = mk \<Longrightarrow>
   \<forall>room \<in> set rooms. roomId room = rid \<longrightarrow> memberships api (mk room) = [] \<Longrightarrow>
   map_of (roomSessions (start_rooms api rooms m)) rid = map_of (roomSessions m) rid"
proof (induction rooms arbitrary: m)
  case Nil
  then show ?case by simp
next
  case (Cons r rooms)
  let ?m1 = "m\<lparr>next_ref := Suc (next_ref m)\<rparr>"
  let ?m2 = "m\<lparr>next_ref := Suc (next_ref m),
               roomSessions := AList.update (roomId r)
                 \<lparr>session_ref = next_ref m,
                  session_state = roomSessionForRoom api (client m) r\<rparr> (roomSessions m)\<rparr>"
  have rest: "\<forall>room \<in> set rooms. roomId room = rid \<longrightarrow> memberships api (mk room) = []"
    using Cons.prems(2) by simp
  show ?case
  proof (cases "memberships api (roomSessionForRoom api (client m) r) = []")
    case True
    then have eq: "start_rooms api (r # rooms) m = start_rooms api rooms ?m1"
      by (simp add: Let_def)
    have "roomSessionForRoom api (client ?m1) = mk" using Cons.prems(1) by simp
    from Cons.IH [OF this rest] show ?thesis unfolding eq by simp
  next
    case False
    then have eq: "start_rooms api (r # rooms) m = start_rooms api rooms ?m2"
      by (simp add: Let_def)
    have other: "roomId r \<noteq> rid" using False Cons.prems by auto
    have "roomSessionForRoom api (client ?m2) = mk" using Cons.prems(1) by simp
    from Cons.IH [OF this rest] show ?thesis
      unfolding eq using other by (simp add: AList.update_conv')
  qed
qed

lemma start_listeners:
  "listeners (client (start api m)) =
     listeners (client m) @
       [(ClientEvent_Room, Handler_onRoom), (RoomEvent_Timeline, Handler_onTimeline),
        (RoomStateEvent_Events, Handler_onRoomState)]"
  by (simp add: start_def Let_def client_on_def start_rooms_client)

lemma start_registry:
  "roomSessions (start api m) = roomSessions (start_rooms api (known_rooms (client m)) m)"
  by (simp add: start_def Let_def)

text \<open>
  C7, as the code has it. \<open>start\<close> makes a session for every room the client knows and
  registers it only when it has members; it does not run the refresh algorithm, so no
  operation is invoked on any session and nothing is emitted. Afterwards every known room
  whose session has members is registered with an active session; a room id none of whose
  known rooms has members is registered exactly as it was before (not at all, on a new
  manager); and the three subscriptions have been added after the manager's earlier ones.
\<close>

theorem start_seeds:
  "emitted (start api m) = emitted m \<and>
   session_calls (start api m) = session_calls m \<and>
   listeners (client (start api m)) =
     listeners (client m) @
       [(ClientEvent_Room, Handler_onRoom), (RoomEvent_Timeline, Handler_onTimeline),
        (RoomStateEvent_Events, Handler_onRoomState)] \<and>
   (\<forall>room \<in> set (known_rooms (client m)).
      memberships api (roomSessionForRoom api (client m) room) \<noteq> [] \<longrightarrow>
      isActive api room (start api m)) \<and>
   (\<forall>rid.
      (\<forall>room \<in> set (known_rooms (client m)).
         roomId room = rid \<longrightarrow> memberships api (roomSessionForRoom api (client m) room) = []) \<longrightarrow>
      map_of (roomSessions (start api m)) rid = map_of (roomSessions m) rid)"
proof (intro conjI ballI allI impI)
  show "emitted (start api m) = emitted m"
    by (simp add: start_def Let_def start_rooms_frame)
  show "session_calls (start api m) = session_calls m"
    by (simp add: start_def Let_def start_rooms_frame)
  show "listeners (client (start api m)) =
     listeners (client m) @
       [(ClientEvent_Room, Handler_onRoom), (RoomEvent_Timeline, Handler_onTimeline),
        (RoomStateEvent_Events, Handler_onRoomState)]"
    by (rule start_listeners)
next
  fix room
  assume "room \<in> set (known_rooms (client m))"
    and "memberships api (roomSessionForRoom api (client m) room) \<noteq> []"
  then have "\<exists>s. map_of (roomSessions (start_rooms api (known_rooms (client m)) m)) (roomId room)
        = Some s \<and> memberships api (session_state s) \<noteq> []"
    by (intro start_rooms_registers [where mk = "roomSessionForRoom api (client m)"]) simp_all
  then show "isActive api room (start api m)"
    unfolding isActive_def start_registry by auto
next
  fix rid
  assume "\<forall>room \<in> set (known_rooms (client m)).
         roomId room = rid \<longrightarrow> memberships api (roomSessionForRoom api (client m) room) = []"
  then show "map_of (roomSessions (start api m)) rid = map_of (roomSessions m) rid"
    unfolding start_registry
    by (intro start_rooms_skips [where mk = "roomSessionForRoom api (client m)"]) simp_all
qed

text \<open>
  The client knows room a, with one member, and room b, with none: a is registered and
  active, b is not registered, nothing is emitted.
\<close>

theorem start_seeds_witness:
  "room_a [''@alice:example.org''] \<in>
     set (known_rooms (client_of [room_a [''@alice:example.org''], room_b []] decrypt_ok)) \<and>
   memberships room_state_api
     (roomSessionForRoom room_state_api
        (client_of [room_a [''@alice:example.org''], room_b []] decrypt_ok)
        (room_a [''@alice:example.org''])) \<noteq> [] \<and>
   isActive room_state_api (room_a [''@alice:example.org''])
     (start room_state_api
        (new_manager (client_of [room_a [''@alice:example.org''], room_b []] decrypt_ok))) \<and>
   map_of (roomSessions (start room_state_api
        (new_manager (client_of [room_a [''@alice:example.org''], room_b []] decrypt_ok))))
     ''!b:example.org'' = None \<and>
   emitted (start room_state_api
        (new_manager (client_of [room_a [''@alice:example.org''], room_b []] decrypt_ok))) = []"
proof -
  let ?c = "client_of [room_a [''@alice:example.org''], room_b []] decrypt_ok"
  let ?m0 = "new_manager ?c :: (string list, string \<times> string list) manager"
  have c: "client ?m0 = ?c" by (simp add: new_manager_def)
  have k: "room_a [''@alice:example.org''] \<in> set (known_rooms (client ?m0))"
    by (simp add: known_rooms_def new_manager_def client_of_def)
  have a: "memberships room_state_api
     (roomSessionForRoom room_state_api (client ?m0) (room_a [''@alice:example.org''])) \<noteq> []"
    by (simp add: room_state_api_def room_a_def)
  have b: "\<forall>room \<in> set (known_rooms (client ?m0)).
      roomId room = ''!b:example.org'' \<longrightarrow>
      memberships room_state_api (roomSessionForRoom room_state_api (client ?m0) room) = []"
    by (simp add: known_rooms_def fixture_defs)
  note t = start_seeds [of room_state_api ?m0]
  have w1: "isActive room_state_api (room_a [''@alice:example.org'']) (start room_state_api ?m0)"
    using t k a by blast
  have "map_of (roomSessions (start room_state_api ?m0)) ''!b:example.org'' =
      map_of (roomSessions ?m0) ''!b:example.org''"
    using t b by blast
  then have w2: "map_of (roomSessions (start room_state_api ?m0)) ''!b:example.org'' = None"
    by (simp add: new_manager_def)
  have "emitted (start room_state_api ?m0) = emitted ?m0"
    using t by blast
  then have w3: "emitted (start room_state_api ?m0) = []"
    by (simp add: new_manager_def)
  from k a w1 w2 w3 show ?thesis unfolding c by blast
qed

text \<open>
  C7 as the specification words it does not hold: a room the client knows, with no member,
  has no registry entry after \<open>start\<close>.
\<close>

theorem start_skips_empty_room_counterexample:
  "room_b [] \<in> set (known_rooms (client_of [room_a [''@alice:example.org''], room_b []] decrypt_ok)) \<and>
   \<not> has (roomSessions (start room_state_api
        (new_manager (client_of [room_a [''@alice:example.org''], room_b []] decrypt_ok))))
      (roomId (room_b []))"
  by (simp add: start_def Let_def has_def known_rooms_def fixture_defs)

text \<open>
  C2. The comment on \<^verbatim>\<open>roomSessions\<close> promises one session object per room for the
  lifetime of the client, and \<open>getRoomSession\<close> keeps it by testing \<^verbatim>\<open>has\<close> before
  it sets an entry. \<open>start\<close> sets its entries without that test. A caller looks room a
  up on a new manager and gets session object 0; the manager is started while the room has
  a member; the registry now holds object 1 for room a, the same lookup returns object 1,
  and nothing has stopped object 0: two session objects for one room, and the caller's one
  is no longer the registered one.
\<close>

theorem start_replaces_session:
  "reachable room_state_api
     (start room_state_api
        (step room_state_api (Op_getRoomSession (room_a [''@alice:example.org'']))
           (new_manager (client_of [room_a [''@alice:example.org'']] decrypt_ok)))) \<and>
   session_ref (fst (getRoomSession room_state_api (room_a [''@alice:example.org''])
     (new_manager (client_of [room_a [''@alice:example.org'']] decrypt_ok)))) = 0 \<and>
   session_ref (fst (getRoomSession room_state_api (room_a [''@alice:example.org''])
     (start room_state_api
        (step room_state_api (Op_getRoomSession (room_a [''@alice:example.org'']))
           (new_manager (client_of [room_a [''@alice:example.org'']] decrypt_ok)))))) = 1 \<and>
   map_option session_ref
     (map_of (roomSessions (start room_state_api
        (step room_state_api (Op_getRoomSession (room_a [''@alice:example.org'']))
           (new_manager (client_of [room_a [''@alice:example.org'']] decrypt_ok)))))
        ''!a:example.org'') = Some 1 \<and>
   session_calls (start room_state_api
        (step room_state_api (Op_getRoomSession (room_a [''@alice:example.org'']))
           (new_manager (client_of [room_a [''@alice:example.org'']] decrypt_ok)))) = []"
proof -
  let ?m0 = "new_manager (client_of [room_a [''@alice:example.org'']] decrypt_ok)
      :: (string list, string \<times> string list) manager"
  let ?ra = "room_a [''@alice:example.org'']"
  let ?m1 = "step room_state_api (Op_getRoomSession ?ra) ?m0"
  have r: "reachable room_state_api (start room_state_api ?m1)"
    by (intro reachable.started reachable.stepped reachable.constructed)
  have m1: "?m1 =
     \<lparr>client = client_of [room_a [''@alice:example.org'']] decrypt_ok,
      roomSessions =
        [(''!a:example.org'',
          \<lparr>session_ref = 0, session_state = (''!a:example.org'', [''@alice:example.org''])\<rparr>)],
      next_ref = 1, emitted = [], logged = [], timers = [], session_calls = []\<rparr>"
    by (simp add: getRoomSession_def has_def new_manager_def room_state_api_def room_a_def)
  have first: "session_ref (fst (getRoomSession room_state_api ?ra ?m0)) = 0"
    by (simp add: getRoomSession_def has_def new_manager_def)
  have regs: "roomSessions (start room_state_api ?m1) =
      [(''!a:example.org'',
        \<lparr>session_ref = 1, session_state = (''!a:example.org'', [''@alice:example.org''])\<rparr>)]"
    unfolding m1
    by (simp add: start_def Let_def known_rooms_def client_of_def room_state_api_def room_a_def)
  have calls: "session_calls (start room_state_api ?m1) = []"
    unfolding m1
    by (simp add: start_def Let_def known_rooms_def client_of_def room_state_api_def room_a_def)
  have "map_of (roomSessions (start room_state_api ?m1)) (roomId ?ra) =
      Some \<lparr>session_ref = 1, session_state = (''!a:example.org'', [''@alice:example.org''])\<rparr>"
    unfolding regs by (simp add: room_a_def)
  from getRoomSession_existing [OF this, of room_state_api]
  have second: "session_ref (fst (getRoomSession room_state_api ?ra (start room_state_api ?m1))) = 1"
    by simp
  have entry: "map_option session_ref
      (map_of (roomSessions (start room_state_api ?m1)) ''!a:example.org'') = Some 1"
    unfolding regs by simp
  from r first second entry calls show ?thesis by blast
qed

subsection \<open>Stop\<close>

lemma stop_sessions_calls:
  "session_calls (stop_sessions api ss m) =
     session_calls m @ map (\<lambda>s. Call_stop (session_ref s)) ss"
  by (induction ss arbitrary: m) (simp_all add: invoke_def)

lemma stop_sessions_frame:
  "emitted (stop_sessions api ss m) = emitted m"
  "logged (stop_sessions api ss m) = logged m"
  "timers (stop_sessions api ss m) = timers m"
  "client (stop_sessions api ss m) = client m"
  "next_ref (stop_sessions api ss m) = next_ref m"
  by (induction ss arbitrary: m) (simp_all add: invoke_def)

lemma stop_frame:
  "roomSessions (stop api m) = []"
  "timers (stop api m) = timers m"
  "next_ref (stop api m) = next_ref m"
  "emitted (stop api m) = emitted m"
  by (simp_all add: stop_def Let_def stop_sessions_frame)

lemma count_stop_once:
  "distinct (map session_ref ss) \<Longrightarrow> s \<in> set ss \<Longrightarrow>
   count_list (map (\<lambda>s. Call_stop (session_ref s)) ss) (Call_stop (session_ref s)) = 1"
proof (induction ss)
  case Nil
  then show ?case by simp
next
  case (Cons a ss)
  show ?case
  proof (cases "s = a")
    case True
    have "session_ref a \<notin> session_ref ` set ss"
      using Cons.prems(1) by simp
    then have "Call_stop (session_ref a) \<notin> set (map (\<lambda>s. Call_stop (session_ref s)) ss)"
      by auto
    then have "count_list (map (\<lambda>s. Call_stop (session_ref s)) ss) (Call_stop (session_ref a)) = 0"
      by (rule count_notin)
    with True show ?thesis by simp
  next
    case False
    then have in_ss: "s \<in> set ss" using Cons.prems(2) by simp
    have "session_ref a \<noteq> session_ref s"
      using Cons.prems(1) in_ss by auto
    moreover have "count_list (map (\<lambda>s. Call_stop (session_ref s)) ss) (Call_stop (session_ref s)) = 1"
      using Cons.IH Cons.prems(1) in_ss by simp
    ultimately show ?thesis by simp
  qed
qed

lemma stop_listeners:
  "listeners (client (stop api m)) =
     rev (remove1 (RoomStateEvent_Events, Handler_onRoomState)
       (remove1 (RoomEvent_Timeline, Handler_onTimeline)
         (remove1 (ClientEvent_Room, Handler_onRoom) (rev (listeners (client m))))))"
  by (simp add: stop_def Let_def client_off_def stop_sessions_frame)

subsection \<open>Different rooms hold different session objects\<close>

lemma refs_mutate:
  "map (\<lambda>entry. session_ref (snd entry)) (mutate r f al) =
   map (\<lambda>entry. session_ref (snd entry)) al"
  by (simp add: mutate_def case_prod_unfold comp_def)

lemma refs_update:
  "distinct (map (\<lambda>entry. session_ref (snd entry)) al) \<Longrightarrow>
   \<forall>entry \<in> set al. session_ref (snd entry) < n \<Longrightarrow>
   session_ref v = n \<Longrightarrow>
   distinct (map (\<lambda>entry. session_ref (snd entry)) (AList.update k v al)) \<and>
   (\<forall>entry \<in> set (AList.update k v al). session_ref (snd entry) < Suc n)"
proof (induction al)
  case Nil
  then show ?case by simp
next
  case (Cons p al)
  have IH: "distinct (map (\<lambda>entry. session_ref (snd entry)) (AList.update k v al)) \<and>
      (\<forall>entry \<in> set (AList.update k v al). session_ref (snd entry) < Suc n)"
    using Cons by simp
  show ?case
  proof (cases "fst p = k")
    case True
    have "n \<notin> (\<lambda>entry. session_ref (snd entry)) ` set al"
      using Cons.prems(2) by auto
    then show ?thesis
      using True Cons.prems by (auto simp: less_Suc_eq)
  next
    case False
    have sub: "(\<lambda>entry. session_ref (snd entry)) ` set (AList.update k v al) \<subseteq>
        insert n ((\<lambda>entry. session_ref (snd entry)) ` set al)"
      using Cons.prems(3) by (induction al) auto
    have "session_ref (snd p) \<noteq> n" using Cons.prems(2) by auto
    moreover have "session_ref (snd p) \<notin> (\<lambda>entry. session_ref (snd entry)) ` set al"
      using Cons.prems(1) by simp
    ultimately have "session_ref (snd p) \<notin>
        (\<lambda>entry. session_ref (snd entry)) ` set (AList.update k v al)"
      using sub by blast
    then show ?thesis
      using False IH Cons.prems(2) by (auto simp: less_Suc_eq)
  qed
qed

lemma bound_mutate:
  assumes "\<forall>entry \<in> set al. session_ref (snd entry) < n"
  shows "\<forall>entry \<in> set (mutate r f al). session_ref (snd entry) < n"
proof
  fix entry
  assume "entry \<in> set (mutate r f al)"
  then have "session_ref (snd entry) \<in> set (map (\<lambda>entry. session_ref (snd entry)) (mutate r f al))"
    by simp
  then have "session_ref (snd entry) \<in> set (map (\<lambda>entry. session_ref (snd entry)) al)"
    unfolding refs_mutate .
  then obtain e where "e \<in> set al" "session_ref (snd e) = session_ref (snd entry)"
    by auto
  with assms show "session_ref (snd entry) < n" by force
qed

lemma distinct_objects_mutate:
  assumes "distinct_objects m" and "roomSessions m' = mutate r f (roomSessions m)"
    and "next_ref m' = next_ref m"
  shows "distinct_objects m'"
  using assms bound_mutate [of "roomSessions m" "next_ref m" r f]
  unfolding distinct_objects_def by (simp add: refs_mutate)

lemma distinct_objects_getRoomSession:
  "distinct_objects m \<Longrightarrow> distinct_objects (snd (getRoomSession api room m))"
proof (cases "has (roomSessions m) (roomId room)")
  case True
  assume "distinct_objects m"
  with True show ?thesis by (simp add: getRoomSession_def)
next
  case False
  assume d: "distinct_objects m"
  from refs_update [of "roomSessions m" "next_ref m"
      "\<lparr>session_ref = next_ref m, session_state = roomSessionForRoom api (client m) room\<rparr>"
      "roomId room"] d
  show ?thesis
    using False unfolding distinct_objects_def by (simp add: getRoomSession_def)
qed


lemma refreshRoom_next_ref:
  "next_ref (refreshRoom api room m) = next_ref (snd (getRoomSession api room m))"
  by (simp add: refreshRoom_def Let_def split_beta invoke_def emit_def)

lemma distinct_objects_refreshRoom:
  "distinct_objects m \<Longrightarrow> distinct_objects (refreshRoom api room m)"
  using distinct_objects_mutate [OF distinct_objects_getRoomSession refreshRoom_registry
      refreshRoom_next_ref] .

lemma distinct_objects_consume:
  assumes d: "distinct_objects m"
  shows "distinct_objects (consumeCallEncryptionEvent api event isRetry m)"
proof (cases "\<not> isDecryptionFailure (decryptEventIfNeeded (client m) event) \<and>
    getType (decryptEventIfNeeded (client m) event) = CallEncryptionKeysPrefix \<and>
    getRoom (client m) (getRoomId (decryptEventIfNeeded (client m) event)) \<noteq> None")
  case True
  then obtain room where
    "getRoom (client m) (getRoomId (decryptEventIfNeeded (client m) event)) = Some room"
    by blast
  with True have eq: "consumeCallEncryptionEvent api event isRetry m =
     invoke (Call_onCallEncryption (session_ref (fst (getRoomSession api room m)))
               (decryptEventIfNeeded (client m) event))
       (session_ref (fst (getRoomSession api room m)))
       (onCallEncryption api (decryptEventIfNeeded (client m) event))
       ((snd (getRoomSession api room m))
          \<lparr>logged := logged m @
             (if isRetry then [(Log_info, msg_succeeded (decryptEventIfNeeded (client m) event))]
              else [])\<rparr>)"
    by (simp add: consume_dispatch)
  show ?thesis
    by (rule distinct_objects_mutate [OF distinct_objects_getRoomSession [OF d, of api room]])
       (simp_all add: eq invoke_def)
next
  case False
  then have "roomSessions (consumeCallEncryptionEvent api event isRetry m) = roomSessions m"
    and "next_ref (consumeCallEncryptionEvent api event isRetry m) = next_ref m"
    by (auto simp: consumeCallEncryptionEvent_def Let_def logger_def setTimeout_def
        split: option.splits)
  with d show ?thesis by (simp add: distinct_objects_def)
qed

lemma distinct_objects_step: "distinct_objects m \<Longrightarrow> distinct_objects (step api op m)"
proof (cases op)
  case (Op_onRoom room)
  assume "distinct_objects m"
  with Op_onRoom show ?thesis by (simp add: onRoom_def distinct_objects_refreshRoom)
next
  case (Op_onTimeline event)
  assume "distinct_objects m"
  with Op_onTimeline show ?thesis by (simp add: onTimeline_def distinct_objects_consume)
next
  case (Op_onRoomState event)
  assume d: "distinct_objects m"
  then have "distinct_objects (logger Log_error (msg_unknown_room event) m)"
    by (simp add: distinct_objects_def logger_def)
  with d Op_onRoomState show ?thesis
    by (simp add: onRoomState_def distinct_objects_refreshRoom split: option.split)
next
  case (Op_timerFires i)
  assume d: "distinct_objects m"
  then have "distinct_objects (m\<lparr>timers := take i (timers m) @ drop (Suc i) (timers m)\<rparr>)"
    by (simp add: distinct_objects_def)
  then have "distinct_objects (consumeCallEncryptionEvent api (snd (timers m ! i)) True
      (m\<lparr>timers := take i (timers m) @ drop (Suc i) (timers m)\<rparr>))"
    by (rule distinct_objects_consume)
  with d Op_timerFires show ?thesis by (simp add: timerFires_def)
next
  case (Op_getRoomSession room)
  assume "distinct_objects m"
  with Op_getRoomSession show ?thesis by (simp add: distinct_objects_getRoomSession)
next
  case (Op_getActiveRoomSession room)
  assume "distinct_objects m"
  with Op_getActiveRoomSession show ?thesis by simp
next
  case (Op_clientChanges c)
  assume "distinct_objects m"
  with Op_clientChanges show ?thesis by (simp add: distinct_objects_def)
next
  case (Op_sessionChanges r f)
  assume d: "distinct_objects m"
  have "distinct_objects (m\<lparr>roomSessions := mutate r f (roomSessions m)\<rparr>)"
    by (rule distinct_objects_mutate [OF d]) simp_all
  with Op_sessionChanges show ?thesis by simp
qed

lemma distinct_objects_start_rooms:
  "distinct_objects m \<Longrightarrow> distinct_objects (start_rooms api rooms m)"
proof (induction rooms arbitrary: m)
  case Nil
  then show ?case by simp
next
  case (Cons room rooms)
  let ?session = "\<lparr>session_ref = next_ref m,
                   session_state = roomSessionForRoom api (client m) room\<rparr>"
  let ?m1 = "m\<lparr>next_ref := Suc (next_ref m)\<rparr>"
  let ?m2 = "m\<lparr>next_ref := Suc (next_ref m),
               roomSessions := AList.update (roomId room) ?session (roomSessions m)\<rparr>"
  have d1: "distinct_objects ?m1"
    using Cons.prems by (auto simp: distinct_objects_def less_Suc_eq)
  have d2: "distinct_objects ?m2"
    using refs_update [of "roomSessions m" "next_ref m" ?session "roomId room"] Cons.prems
    unfolding distinct_objects_def by simp
  show ?case
  proof (cases "memberships api (roomSessionForRoom api (client m) room) = []")
    case True
    then have "start_rooms api (room # rooms) m = start_rooms api rooms ?m1"
      by (simp add: Let_def)
    with Cons.IH [OF d1] show ?thesis by simp
  next
    case False
    then have "start_rooms api (room # rooms) m = start_rooms api rooms ?m2"
      by (simp add: Let_def)
    with Cons.IH [OF d2] show ?thesis by simp
  qed
qed

lemma reachable_distinct_objects: "reachable api m \<Longrightarrow> distinct_objects m"
proof (induction rule: reachable.induct)
  case (constructed c)
  show ?case by (simp add: distinct_objects_def new_manager_def)
next
  case (started m)
  have "distinct_objects (start_rooms api (known_rooms (client m)) m)"
    using started.IH by (rule distinct_objects_start_rooms)
  then show ?case by (simp add: start_def Let_def distinct_objects_def)
next
  case (stopped m)
  show ?case by (simp add: distinct_objects_def stop_frame)
next
  case (stepped m op)
  then show ?case by (simp add: distinct_objects_step)
qed

text \<open>
  C5. After \<open>stop\<close> the registry is empty, whatever it held. \<open>stop\<close> invokes
  \<^verbatim>\<open>stop()\<close> once per registry entry, in the order of the entries, and nothing else; in
  every state the manager can reach, the entries hold different session objects, so each
  tracked object is stopped exactly once.
  One registration of each of the three handlers is removed from the client, so that the
  subscriptions made by \<open>start\<close> are gone after \<open>stop\<close>. Nothing is emitted.
\<close>

theorem stop_clears:
  "roomSessions (stop api m) = [] \<and>
   session_calls (stop api m) =
     session_calls m @ map (\<lambda>entry. Call_stop (session_ref (snd entry))) (roomSessions m) \<and>
   (reachable api m \<longrightarrow>
      (\<forall>entry \<in> set (roomSessions m).
         count_list (drop (length (session_calls m)) (session_calls (stop api m)))
           (Call_stop (session_ref (snd entry))) = 1)) \<and>
   listeners (client (stop api m)) =
     rev (remove1 (RoomStateEvent_Events, Handler_onRoomState)
       (remove1 (RoomEvent_Timeline, Handler_onTimeline)
         (remove1 (ClientEvent_Room, Handler_onRoom) (rev (listeners (client m)))))) \<and>
   listeners (client (stop api (start api m))) = listeners (client m) \<and>
   emitted (stop api m) = emitted m"
proof -
  have calls: "session_calls (stop api m) =
     session_calls m @ map (\<lambda>s. Call_stop (session_ref s)) (map snd (roomSessions m))"
    by (simp add: stop_def Let_def stop_sessions_calls)
  have once: "count_list (drop (length (session_calls m)) (session_calls (stop api m)))
           (Call_stop (session_ref (snd entry))) = 1"
    if r: "reachable api m" and e: "entry \<in> set (roomSessions m)" for entry
  proof -
    have "distinct (map (\<lambda>entry. session_ref (snd entry)) (roomSessions m))"
      using reachable_distinct_objects [OF r] by (simp add: distinct_objects_def)
    then have "distinct (map session_ref (map snd (roomSessions m)))"
      by (simp add: comp_def)
    moreover have "snd entry \<in> set (map snd (roomSessions m))"
      using e by simp
    ultimately show ?thesis
      unfolding calls by (simp only: append_eq_conv_conj drop_append length_map
          diff_self_eq_0 drop_all order_refl drop_0 append_Nil count_stop_once)
  qed
  have round: "listeners (client (stop api (start api m))) = listeners (client m)"
    unfolding stop_listeners start_listeners by simp
  show ?thesis
    using once round
    by (simp add: calls stop_listeners comp_def) (simp add: stop_def Let_def stop_sessions_frame)
qed

text \<open>
  A started manager with two rooms in call: after \<open>stop\<close> no entry, one \<^verbatim>\<open>stop()\<close>
  for each of the session objects 0 and 1, no listener.
\<close>

theorem stop_clears_witness:
  "reachable room_state_api
     (start room_state_api
        (new_manager (client_of [room_a [''@alice:example.org''], room_b [''@bob:example.org'']]
           decrypt_ok))) \<and>
   map fst (roomSessions (start room_state_api
        (new_manager (client_of [room_a [''@alice:example.org''], room_b [''@bob:example.org'']]
           decrypt_ok)))) = [''!a:example.org'', ''!b:example.org''] \<and>
   roomSessions (stop room_state_api (start room_state_api
        (new_manager (client_of [room_a [''@alice:example.org''], room_b [''@bob:example.org'']]
           decrypt_ok)))) = [] \<and>
   session_calls (stop room_state_api (start room_state_api
        (new_manager (client_of [room_a [''@alice:example.org''], room_b [''@bob:example.org'']]
           decrypt_ok)))) = [Call_stop 0, Call_stop 1] \<and>
   count_list (session_calls (stop room_state_api (start room_state_api
        (new_manager (client_of [room_a [''@alice:example.org''], room_b [''@bob:example.org'']]
           decrypt_ok))))) (Call_stop 1) = 1 \<and>
   listeners (client (stop room_state_api (start room_state_api
        (new_manager (client_of [room_a [''@alice:example.org''], room_b [''@bob:example.org'']]
           decrypt_ok))))) = []"
proof -
  let ?m0 = "new_manager (client_of [room_a [''@alice:example.org''], room_b [''@bob:example.org'']]
           decrypt_ok) :: (string list, string \<times> string list) manager"
  let ?ms = "start room_state_api ?m0"
  have regs: "roomSessions ?ms =
      [(''!a:example.org'',
        \<lparr>session_ref = 0, session_state = (''!a:example.org'', [''@alice:example.org''])\<rparr>),
       (''!b:example.org'',
        \<lparr>session_ref = 1, session_state = (''!b:example.org'', [''@bob:example.org''])\<rparr>)]"
    by (simp add: start_def Let_def known_rooms_def fixture_defs)
  have calls0: "session_calls ?ms = []"
    by (simp add: start_def Let_def known_rooms_def fixture_defs)
  have l0: "listeners (client ?m0) = []"
    by (simp add: fixture_defs)
  have d: "reachable room_state_api ?ms"
    by (intro reachable.started reachable.constructed)
  have mem: "(''!b:example.org'',
        \<lparr>session_ref = 1, session_state = (''!b:example.org'', [''@bob:example.org''])\<rparr>)
      \<in> set (roomSessions ?ms)"
    unfolding regs by simp
  note t = stop_clears [of room_state_api ?ms]
  have w1: "roomSessions (stop room_state_api ?ms) = []"
    using t by blast
  have "session_calls (stop room_state_api ?ms) =
     session_calls ?ms @ map (\<lambda>entry. Call_stop (session_ref (snd entry))) (roomSessions ?ms)"
    using t by blast
  then have w2: "session_calls (stop room_state_api ?ms) = [Call_stop 0, Call_stop 1]"
    unfolding regs calls0 by simp
  have "\<forall>entry \<in> set (roomSessions ?ms).
         count_list (drop (length (session_calls ?ms)) (session_calls (stop room_state_api ?ms)))
           (Call_stop (session_ref (snd entry))) = 1"
    using t d by blast
  from this mem
  have w3: "count_list (session_calls (stop room_state_api ?ms)) (Call_stop 1) = 1"
    unfolding calls0 by fastforce
  have "listeners (client (stop room_state_api (start room_state_api ?m0))) = listeners (client ?m0)"
    using stop_clears [of room_state_api ?m0] by blast
  then have w4: "listeners (client (stop room_state_api ?ms)) = []"
    unfolding l0 .
  have w0: "map fst (roomSessions ?ms) = [''!a:example.org'', ''!b:example.org'']"
    unfolding regs by simp
  from d w0 w1 w2 w3 w4 show ?thesis by blast
qed

subsection \<open>A retry that fires after stop\<close>

lemma consume_on_empty:
  "roomSessions m = [] \<Longrightarrow>
   roomSessions (consumeCallEncryptionEvent api event isRetry m) =
     (if \<not> isDecryptionFailure (decryptEventIfNeeded (client m) event) \<and>
         getType (decryptEventIfNeeded (client m) event) = CallEncryptionKeysPrefix
      then (case getRoom (client m) (getRoomId (decryptEventIfNeeded (client m) event)) of
              None \<Rightarrow> []
            | Some room \<Rightarrow>
                [(roomId room,
                  \<lparr>session_ref = next_ref m,
                   session_state =
                     onCallEncryption api (decryptEventIfNeeded (client m) event)
                       (roomSessionForRoom api (client m) room)\<rparr>)])
      else [])"
  by (simp add: consumeCallEncryptionEvent_def Let_def logger_def setTimeout_def
      getRoomSession_def has_def invoke_def mutate_def split: option.split)

text \<open>
  C9, as the code has it. \<open>stop\<close> leaves the pending timers in place and empties the
  registry. When one of them fires afterwards (the client being whatever it is by then),
  the registry stays empty if the decryption fails again, if the event is not of the
  call-encryption-keys type, or if the client cannot resolve its room; otherwise the retry
  registers a new session object for the room, the one \<open>onCallEncryption\<close> is then invoked
  on.
\<close>

theorem late_retry:
  "i < length (timers m) \<Longrightarrow>
   timers (stop api m) = timers m \<and>
   roomSessions (stop api m) = [] \<and>
   roomSessions (timerFires api i ((stop api m)\<lparr>client := c\<rparr>)) =
     (if \<not> isDecryptionFailure (decryptEventIfNeeded c (snd (timers m ! i))) \<and>
         getType (decryptEventIfNeeded c (snd (timers m ! i))) = CallEncryptionKeysPrefix
      then (case getRoom c (getRoomId (decryptEventIfNeeded c (snd (timers m ! i)))) of
              None \<Rightarrow> []
            | Some room \<Rightarrow>
                [(roomId room,
                  \<lparr>session_ref = next_ref m,
                   session_state =
                     onCallEncryption api (decryptEventIfNeeded c (snd (timers m ! i)))
                       (roomSessionForRoom api c room)\<rparr>)])
      else [])"
  by (simp add: timerFires_def stop_frame consume_on_empty split: option.split)

text \<open>The keys still missing when the timer fires after \<open>stop\<close>: the registry stays empty.\<close>

theorem late_retry_witness:
  "0 < length (timers (onTimeline room_state_api
         (event_in (Some ''!a:example.org'') CallEncryptionKeysPrefix)
         (new_manager (client_of [room_a [''@alice:example.org'']] decrypt_fails)))) \<and>
   roomSessions (timerFires room_state_api 0
     ((stop room_state_api
        (onTimeline room_state_api (event_in (Some ''!a:example.org'') CallEncryptionKeysPrefix)
           (new_manager (client_of [room_a [''@alice:example.org'']] decrypt_fails))))
      \<lparr>client := client_of [room_a [''@alice:example.org'']] decrypt_fails\<rparr>)) = []"
proof -
  let ?c = "client_of [room_a [''@alice:example.org'']] decrypt_fails"
  let ?e = "event_in (Some ''!a:example.org'') CallEncryptionKeysPrefix"
  let ?m1 = "onTimeline room_state_api ?e (new_manager ?c)
      :: (string list, string \<times> string list) manager"
  have t: "timers ?m1 = [(1000, decrypt_fails ?e)]"
    by (simp add: onTimeline_def consumeCallEncryptionEvent_def Let_def setTimeout_def logger_def
        new_manager_def client_of_def decrypt_fails_def)
  then have h: "0 < length (timers ?m1)" by simp
  have f: "isDecryptionFailure (decryptEventIfNeeded ?c (snd (timers ?m1 ! 0)))"
    unfolding t by (simp add: client_of_def decrypt_fails_def)
  show ?thesis
    using h late_retry [OF h, of room_state_api ?c] f by simp
qed

text \<open>
  C9 as the specification words it does not hold: the decryption of a key event fails, the
  manager is stopped, the keys arrive, the timer fires: room a is registered again.
\<close>

theorem late_retry_counterexample:
  "roomSessions (stop room_state_api
        (onTimeline room_state_api (event_in (Some ''!a:example.org'') CallEncryptionKeysPrefix)
           (new_manager (client_of [room_a [''@alice:example.org'']] decrypt_fails)))) = [] \<and>
   roomSessions (timerFires room_state_api 0
     ((stop room_state_api
        (onTimeline room_state_api (event_in (Some ''!a:example.org'') CallEncryptionKeysPrefix)
           (new_manager (client_of [room_a [''@alice:example.org'']] decrypt_fails))))
      \<lparr>client := client_of [room_a [''@alice:example.org'']] decrypt_ok\<rparr>)) =
   [(''!a:example.org'',
     \<lparr>session_ref = 0, session_state = (''!a:example.org'', [''@alice:example.org''])\<rparr>)]"
proof -
  let ?c = "client_of [room_a [''@alice:example.org'']] decrypt_fails"
  let ?k = "client_of [room_a [''@alice:example.org'']] decrypt_ok"
  let ?e = "event_in (Some ''!a:example.org'') CallEncryptionKeysPrefix"
  let ?m1 = "onTimeline room_state_api ?e (new_manager ?c)
      :: (string list, string \<times> string list) manager"
  have t: "timers ?m1 = [(1000, decrypt_fails ?e)]"
    by (simp add: onTimeline_def consumeCallEncryptionEvent_def Let_def setTimeout_def logger_def
        new_manager_def client_of_def decrypt_fails_def)
  have n: "next_ref ?m1 = 0"
    by (simp add: onTimeline_def consumeCallEncryptionEvent_def Let_def setTimeout_def logger_def
        new_manager_def client_of_def decrypt_fails_def)
  have fire: "timerFires room_state_api 0 ((stop room_state_api ?m1)\<lparr>client := ?k\<rparr>) =
      consumeCallEncryptionEvent room_state_api (decrypt_fails ?e) True
        ((stop room_state_api ?m1)\<lparr>client := ?k, timers := []\<rparr>)"
    by (simp add: timerFires_def stop_frame t)
  have "roomSessions (consumeCallEncryptionEvent room_state_api (decrypt_fails ?e) True
        ((stop room_state_api ?m1)\<lparr>client := ?k, timers := []\<rparr>)) =
      [(''!a:example.org'',
        \<lparr>session_ref = 0, session_state = (''!a:example.org'', [''@alice:example.org''])\<rparr>)]"
  proof -
    let ?ms = "(stop room_state_api ?m1)\<lparr>client := ?k, timers := []\<rparr>"
    have empty: "roomSessions ?ms = []" by (simp add: stop_frame)
    have nr: "next_ref ?ms = 0" by (simp add: stop_frame n)
    have cl: "client ?ms = ?k" by simp
    show ?thesis
      unfolding consume_on_empty [OF empty] nr cl by (simp add: fixture_defs)
  qed
  then show ?thesis
    unfolding fire by (simp add: stop_frame)
qed

subsection \<open>One session object per room\<close>

lemma extends_refl: "registry_extends al al"
  by (simp add: registry_extends_def)

lemma extends_trans:
  assumes ab: "registry_extends a b" and bc: "registry_extends b c"
  shows "registry_extends a c"
  unfolding registry_extends_def
proof (intro conjI allI impI)
  fix k s
  assume "map_of a k = Some s"
  then obtain s' where s': "map_of b k = Some s'" "session_ref s' = session_ref s"
    using ab unfolding registry_extends_def by blast
  then obtain s'' where "map_of c k = Some s''" "session_ref s'' = session_ref s'"
    using bc unfolding registry_extends_def by blast
  with s' show "\<exists>s'. map_of c k = Some s' \<and> session_ref s' = session_ref s"
    by simp
next
  assume "distinct (map fst a)"
  then show "distinct (map fst c)"
    using ab bc unfolding registry_extends_def by blast
qed

lemma extends_mutate: "registry_extends al (mutate r f al)"
  unfolding registry_extends_def by (auto simp: map_of_mutate keys_mutate)

lemma extends_getRoomSession:
  "registry_extends (roomSessions m) (roomSessions (snd (getRoomSession api room m)))"
proof (cases "has (roomSessions m) (roomId room)")
  case True
  then show ?thesis by (simp add: getRoomSession_def extends_refl)
next
  case False
  then have none: "map_of (roomSessions m) (roomId room) = None"
    by (simp add: has_def)
  have reg: "roomSessions (snd (getRoomSession api room m)) =
      AList.update (roomId room)
        \<lparr>session_ref = next_ref m, session_state = roomSessionForRoom api (client m) room\<rparr>
        (roomSessions m)"
    using False by (simp add: getRoomSession_def)
  show ?thesis
    unfolding reg registry_extends_def
    using none by (auto simp: AList.update_conv' AList.distinct_update)
qed

lemma extends_refreshRoom:
  "registry_extends (roomSessions m) (roomSessions (refreshRoom api room m))"
  unfolding refreshRoom_registry
  by (rule extends_trans [OF extends_getRoomSession extends_mutate])

lemma consume_registry:
  "roomSessions (consumeCallEncryptionEvent api event isRetry m) = roomSessions m \<or>
   (\<exists>room r f. roomSessions (consumeCallEncryptionEvent api event isRetry m) =
      mutate r f (roomSessions (snd (getRoomSession api room m))))"
proof (cases "\<not> isDecryptionFailure (decryptEventIfNeeded (client m) event) \<and>
    getType (decryptEventIfNeeded (client m) event) = CallEncryptionKeysPrefix \<and>
    getRoom (client m) (getRoomId (decryptEventIfNeeded (client m) event)) \<noteq> None")
  case True
  then obtain room where
    "getRoom (client m) (getRoomId (decryptEventIfNeeded (client m) event)) = Some room"
    by blast
  with True have "roomSessions (consumeCallEncryptionEvent api event isRetry m) =
      mutate (session_ref (fst (getRoomSession api room m)))
        (onCallEncryption api (decryptEventIfNeeded (client m) event))
        (roomSessions (snd (getRoomSession api room m)))"
    by (simp add: consume_dispatch invoke_def)
  then show ?thesis by blast
next
  case False
  then have "roomSessions (consumeCallEncryptionEvent api event isRetry m) = roomSessions m"
    by (auto simp: consumeCallEncryptionEvent_def Let_def logger_def setTimeout_def
        split: option.splits)
  then show ?thesis by blast
qed

lemma extends_consume:
  "registry_extends (roomSessions m)
     (roomSessions (consumeCallEncryptionEvent api event isRetry m))"
  using consume_registry [of api event isRetry m]
  by (auto simp: extends_refl intro: extends_trans [OF extends_getRoomSession extends_mutate])

lemma extends_step: "registry_extends (roomSessions m) (roomSessions (step api op m))"
proof (cases op)
  case (Op_onRoom room)
  then show ?thesis by (simp add: onRoom_def extends_refreshRoom)
next
  case (Op_onTimeline event)
  then show ?thesis by (simp add: onTimeline_def extends_consume)
next
  case (Op_onRoomState event)
  then show ?thesis
    by (simp add: onRoomState_def logger_def extends_refreshRoom extends_refl
        split: option.split)
next
  case (Op_timerFires i)
  have "registry_extends (roomSessions (m\<lparr>timers := ts\<rparr>))
      (roomSessions (consumeCallEncryptionEvent api e True (m\<lparr>timers := ts\<rparr>)))" for ts e
    by (rule extends_consume)
  then show ?thesis using Op_timerFires by (simp add: timerFires_def extends_refl)
next
  case (Op_getRoomSession room)
  then show ?thesis by (simp add: extends_getRoomSession)
next
  case (Op_getActiveRoomSession room)
  then show ?thesis by (simp add: extends_refl)
next
  case (Op_clientChanges c)
  then show ?thesis by (simp add: extends_refl)
next
  case (Op_sessionChanges r f)
  then show ?thesis by (simp add: extends_mutate)
qed

lemma extends_run: "registry_extends (roomSessions m) (roomSessions (run api ops m))"
proof (induction ops arbitrary: m)
  case Nil
  show ?case by (simp add: run_def extends_refl)
next
  case (Cons op ops)
  have "registry_extends (roomSessions (step api op m)) (roomSessions (run api ops (step api op m)))"
    by (rule Cons.IH)
  with extends_step [of m api op] show ?case
    by (simp add: run_def extends_trans)
qed

text \<open>
  Between \<open>start\<close> and \<open>stop\<close>, that is under any sequence of room-appeared, timeline and
  room-state events, firing timers, lookups, changes of the client's answers and changes of
  session states: a room that is registered stays registered with the same session object;
  two calls of \<open>getRoomSession\<close> for a room, with any such sequence between them, return
  the same session object; and the registry never lists a room twice.
\<close>

lemma session_identity_stable:
  "(\<forall>rid s. map_of (roomSessions m) rid = Some s \<longrightarrow>
      (\<exists>s'. map_of (roomSessions (run api ops m)) rid = Some s' \<and>
            session_ref s' = session_ref s)) \<and>
   session_ref (fst (getRoomSession api room (run api ops (snd (getRoomSession api room m))))) =
     session_ref (fst (getRoomSession api room m)) \<and>
   (distinct (map fst (roomSessions m)) \<longrightarrow> distinct (map fst (roomSessions (run api ops m))))"
proof (intro conjI)
  show "\<forall>rid s. map_of (roomSessions m) rid = Some s \<longrightarrow>
      (\<exists>s'. map_of (roomSessions (run api ops m)) rid = Some s' \<and>
            session_ref s' = session_ref s)"
    using extends_run [of m api ops] unfolding registry_extends_def by blast
  show "distinct (map fst (roomSessions m)) \<longrightarrow> distinct (map fst (roomSessions (run api ops m)))"
    using extends_run [of m api ops] unfolding registry_extends_def by blast
  let ?m1 = "snd (getRoomSession api room m)"
  have "map_of (roomSessions ?m1) (roomId room) = Some (fst (getRoomSession api room m))"
    by (rule getRoomSession_registered)
  then obtain s' where s': "map_of (roomSessions (run api ops ?m1)) (roomId room) = Some s'"
      "session_ref s' = session_ref (fst (getRoomSession api room m))"
    using extends_run [of ?m1 api ops] unfolding registry_extends_def by blast
  from getRoomSession_existing [OF s'(1)] s'(2)
  show "session_ref (fst (getRoomSession api room (run api ops ?m1))) =
     session_ref (fst (getRoomSession api room m))"
    by simp
qed

text \<open>
  Room a, looked up on a new manager, gets session object 0. A member event, the room's
  members leaving, another member event and a key event later, the room is still registered
  with object 0, and the lookup returns object 0 again.
\<close>

lemma session_identity_stable_example:
  "map_of (roomSessions (snd (getRoomSession room_state_api (room_a [''@alice:example.org''])
      (new_manager (client_of [room_a [''@alice:example.org'']] decrypt_ok))))) ''!a:example.org'' =
     Some \<lparr>session_ref = 0, session_state = (''!a:example.org'', [''@alice:example.org''])\<rparr> \<and>
   map_option session_ref
     (map_of (roomSessions
        (run room_state_api
           [Op_onRoomState (event_in (Some ''!a:example.org'') GroupCallMemberPrefix),
            Op_clientChanges (client_of [room_a []] decrypt_ok),
            Op_onRoomState (event_in (Some ''!a:example.org'') GroupCallMemberPrefix),
            Op_onTimeline (event_in (Some ''!a:example.org'') CallEncryptionKeysPrefix)]
           (snd (getRoomSession room_state_api (room_a [''@alice:example.org''])
              (new_manager (client_of [room_a [''@alice:example.org'']] decrypt_ok))))))
        ''!a:example.org'') = Some 0 \<and>
   session_ref (fst (getRoomSession room_state_api (room_a [''@alice:example.org''])
     (run room_state_api
        [Op_onRoomState (event_in (Some ''!a:example.org'') GroupCallMemberPrefix),
         Op_clientChanges (client_of [room_a []] decrypt_ok),
         Op_onRoomState (event_in (Some ''!a:example.org'') GroupCallMemberPrefix),
         Op_onTimeline (event_in (Some ''!a:example.org'') CallEncryptionKeysPrefix)]
        (snd (getRoomSession room_state_api (room_a [''@alice:example.org''])
           (new_manager (client_of [room_a [''@alice:example.org'']] decrypt_ok))))))) = 0 \<and>
   distinct (map fst (roomSessions
     (run room_state_api
        [Op_onRoomState (event_in (Some ''!a:example.org'') GroupCallMemberPrefix),
         Op_clientChanges (client_of [room_a []] decrypt_ok),
         Op_onRoomState (event_in (Some ''!a:example.org'') GroupCallMemberPrefix),
         Op_onTimeline (event_in (Some ''!a:example.org'') CallEncryptionKeysPrefix)]
        (snd (getRoomSession room_state_api (room_a [''@alice:example.org''])
           (new_manager (client_of [room_a [''@alice:example.org'']] decrypt_ok)))))))"
proof -
  let ?m0 = "new_manager (client_of [room_a [''@alice:example.org'']] decrypt_ok)
      :: (string list, string \<times> string list) manager"
  let ?ra = "room_a [''@alice:example.org'']"
  let ?ops = "[Op_onRoomState (event_in (Some ''!a:example.org'') GroupCallMemberPrefix),
         Op_clientChanges (client_of [room_a []] decrypt_ok),
         Op_onRoomState (event_in (Some ''!a:example.org'') GroupCallMemberPrefix),
         Op_onTimeline (event_in (Some ''!a:example.org'') CallEncryptionKeysPrefix)]
      :: (string list, string \<times> string list) operation list"
  let ?m1 = "snd (getRoomSession room_state_api ?ra ?m0)"
  let ?s = "\<lparr>session_ref = 0, session_state = (''!a:example.org'', [''@alice:example.org''])\<rparr>"
  have h: "map_of (roomSessions ?m1) ''!a:example.org'' = Some ?s"
    by (simp add: getRoomSession_def has_def new_manager_def room_state_api_def room_a_def)
  have r0: "session_ref (fst (getRoomSession room_state_api ?ra ?m0)) = 0"
    by (simp add: getRoomSession_def has_def new_manager_def)
  from session_identity_stable [of ?m1 room_state_api ?ops] h
  obtain s' where "map_of (roomSessions (run room_state_api ?ops ?m1)) ''!a:example.org'' = Some s'"
    and "session_ref s' = session_ref ?s"
    by blast
  then have w1: "map_option session_ref
      (map_of (roomSessions (run room_state_api ?ops ?m1)) ''!a:example.org'') = Some 0"
    by simp
  from session_identity_stable [of ?m0 room_state_api ?ops ?ra]
  have "session_ref (fst (getRoomSession room_state_api ?ra (run room_state_api ?ops ?m1))) =
      session_ref (fst (getRoomSession room_state_api ?ra ?m0))"
    by blast
  then have w2: "session_ref (fst (getRoomSession room_state_api ?ra (run room_state_api ?ops ?m1))) = 0"
    unfolding r0 .
  have dk: "distinct (map fst (roomSessions ?m1))"
    by (simp add: getRoomSession_def has_def new_manager_def)
  from session_identity_stable [of ?m1 room_state_api ?ops] dk
  have w3: "distinct (map fst (roomSessions (run room_state_api ?ops ?m1)))"
    by blast
  from h w1 w2 w3 show ?thesis by blast
qed

end
